theory Spec2Isabelle
  imports Complex_Main "HOL-Library.Word" "HOL-Library.Log_Nat"
begin


unbundle bit_operations_syntax

section \<open>Machine types\<close>

text \<open>
  The C sources use \<open>uint8_t\<close>, \<open>uint16_t\<close>, \<open>uint32_t\<close>, \<open>uint64_t\<close> and
  \<open>size_t\<close>.  \<open>size_t\<close> is taken to be 64 bits wide, as on the LP64 and LLP64
  targets the library is built for.  A \<open>float\<close> is carried as its 32-bit pattern:
  the codec reads and writes floats through a union with \<open>uint32_t\<close>.  A byte of a
  buffer (\<open>char\<close> or \<open>uint8_t\<close>) is an Isabelle \<open>char\<close>, which has exactly
  eight bits; a pointer is its 64-bit address, and \<open>NULL\<close> is address 0.
\<close>

type_synonym u16 = "16 word"
type_synonym u32 = "32 word"
type_synonym u64 = "64 word"
type_synonym size_t = "64 word"
type_synonym pointer = "64 word"

definition NULL :: pointer where
  "NULL = 0"

section \<open>C strings\<close>

text \<open>
  A C string is the run of bytes before the first NUL.  \<open>c_str\<close> reads the C string
  that starts a buffer; \<open>strcmp_eq a b\<close> is \<open>strcmp(a, b) == 0\<close>; and
  \<open>strncpy_zeroed n src\<close> is the C string found in a zero-filled buffer of more than
  \<open>n\<close> bytes after \<open>strncpy(buf, src, n)\<close>.
\<close>

definition c_str :: "string \<Rightarrow> string" where
  "c_str s = takeWhile (\<lambda>c. c \<noteq> CHR 0x00) s"

definition strcmp_eq :: "string \<Rightarrow> string \<Rightarrow> bool" where
  "strcmp_eq a b = (c_str a = c_str b)"

definition strncpy_zeroed :: "nat \<Rightarrow> string \<Rightarrow> string" where
  "strncpy_zeroed n src = take n (c_str src)"

section \<open>The value of a \<open>double\<close>\<close>

text \<open>
  The JSON reader stores every number as a C \<open>double\<close>, produced by \<open>strtod\<close>.
  A double is modelled by the number it denotes: a finite double is a rational, and
  the two infinities are kept apart from the finite values (the flag is the sign).
  The sign of a zero is not kept; nothing in the loader reads it.  \<open>strtod\<close> never
  yields a NaN on the number grammar the reader accepts.
\<close>

datatype c_double = Finite rat | Infinity bool

text \<open>\<open>ilog2 q\<close> is \<open>\<lfloor>log\<^sub>2 q\<rfloor>\<close> for a positive rational \<open>q\<close>.\<close>

definition ilog2 :: "rat \<Rightarrow> int" where
  "ilog2 q = (if 1 \<le> q then int (floorlog 2 (nat \<lfloor>q\<rfloor>)) - 1
              else - int (floorlog 2 (nat (\<lceil>1 / q\<rceil> - 1))))"

definition round_half_even :: "rat \<Rightarrow> int" where
  "round_half_even x =
     (let f = \<lfloor>x\<rfloor>; r = x - of_int f
      in if r < 1 / 2 then f
         else if 1 / 2 < r then f + 1
         else if even f then f else f + 1)"

text \<open>
  Rounding of a real number to an IEEE 754 binary format, to nearest with ties to
  even: \<open>p\<close> significant bits, least normal exponent \<open>emin\<close> (below it the spacing
  stays that of the subnormal range), and overflow to infinity from \<open>2\<^bsup>emax+1\<^esup>\<close> on.
\<close>

definition round_ieee :: "int \<Rightarrow> int \<Rightarrow> int \<Rightarrow> rat \<Rightarrow> c_double" where
  "round_ieee p emin emax q =
     (if q = 0 then Finite 0
      else let a = \<bar>q\<bar>;
               e = max (ilog2 a) emin;
               ulp = 2 powi (e - (p - 1));
               r = of_int (round_half_even (a / ulp)) * ulp
           in if 2 powi (emax + 1) \<le> r then Infinity (q < 0)
              else Finite (if q < 0 then - r else r))"

definition round_binary64 :: "rat \<Rightarrow> c_double" where
  "round_binary64 q = round_ieee 53 (- 1022) 1023 q"

definition is_digit :: "char \<Rightarrow> bool" where
  "is_digit c = (48 \<le> (of_char c :: nat) \<and> (of_char c :: nat) \<le> 57)"

definition digits_value :: "string \<Rightarrow> nat" where
  "digits_value ds = foldl (\<lambda>a c. 10 * a + (of_char c - 48)) 0 ds"

text \<open>
  The exact value of a number literal of the JSON grammar: an optional minus sign,
  integer digits, an optional fraction, an optional exponent.
\<close>

definition decimal_value :: "string \<Rightarrow> rat" where
  "decimal_value s =
     (let neg = (case s of [] \<Rightarrow> False | c # _ \<Rightarrow> c = CHR ''-'');
          s1 = (if neg then tl s else s);
          ip = takeWhile is_digit s1;
          s2 = dropWhile is_digit s1;
          has_frac = (case s2 of [] \<Rightarrow> False | c # _ \<Rightarrow> c = CHR ''.'');
          fp = (if has_frac then takeWhile is_digit (tl s2) else []);
          s3 = (if has_frac then dropWhile is_digit (tl s2) else s2);
          ex = (case s3 of
                  [] \<Rightarrow> 0
                | _ # [] \<Rightarrow> 0
                | _ # c # r \<Rightarrow>
                    if c = CHR ''-'' then - int (digits_value r)
                    else if c = CHR ''+'' then int (digits_value r)
                    else int (digits_value (c # r)));
          m = of_nat (digits_value (ip @ fp))
      in (if neg then - m else m) * 10 powi (ex - int (length fp)))"

text \<open>\<open>strtod\<close> returns the double nearest to the literal's value.\<close>

definition strtod :: "string \<Rightarrow> c_double" where
  "strtod s = round_binary64 (decimal_value s)"

text \<open>
  The conversion \<open>(size_t)d\<close> discards the fraction.  C defines it only when the
  integral part fits the type; outside that range the behaviour is undefined, and the
  model takes what the platform yields there as the parameter \<open>oor\<close>.
\<close>

definition double_to_size_t :: "(c_double \<Rightarrow> size_t) \<Rightarrow> c_double \<Rightarrow> size_t" where
  "double_to_size_t oor d =
     (case d of
        Finite q \<Rightarrow>
          if - 1 < q \<and> q < 0 then 0
          else if 0 \<le> q \<and> q < 2 ^ 64 then word_of_int \<lfloor>q\<rfloor>
          else oor d
      | Infinity _ \<Rightarrow> oor d)"


section \<open>Half-float codec\<close>

text \<open>
  \<open>csafetensors_bf16_to_f32\<close>: \<open>cvt.u32 = ((uint32_t)x) << 16; return cvt.f32;\<close>
  The result is the float whose bit pattern is \<open>cvt.u32\<close>.
\<close>

definition csafetensors_bf16_to_f32 :: "u16 \<Rightarrow> u32" where
  "csafetensors_bf16_to_f32 x = push_bit 16 (ucast x :: u32)"

text \<open>The upper half of a 32-bit pattern, \<open>(uint16_t)(u >> 16)\<close>.\<close>

definition upper_u16 :: "u32 \<Rightarrow> u16" where
  "upper_u16 u = ucast (drop_bit 16 u)"

text \<open>
  The half-precision converters read a \<open>float\<close> through a union with a
  \<open>uint32_t\<close>; a \<open>float\<close> is therefore kept as its IEEE 754 binary32 bit pattern.
  The fields of a pattern, and the number a finite pattern denotes:
\<close>

definition f32_neg :: "u32 \<Rightarrow> bool" where
  "f32_neg u = bit u 31"

definition f32_exp :: "u32 \<Rightarrow> nat" where
  "f32_exp u = unat (drop_bit 23 u AND 0xff)"

definition f32_mant :: "u32 \<Rightarrow> nat" where
  "f32_mant u = unat (u AND 0x7fffff)"

definition f32_is_nan :: "u32 \<Rightarrow> bool" where
  "f32_is_nan u = (f32_exp u = 255 \<and> f32_mant u \<noteq> 0)"

definition f32_value :: "u32 \<Rightarrow> rat" where
  "f32_value u =
     (let a = (if f32_exp u = 0 then of_nat (f32_mant u) * 2 powi (- 149)
               else of_nat (2 ^ 23 + f32_mant u) * 2 powi (int (f32_exp u) - 150))
      in if f32_neg u then - a else a)"

text \<open>
  The pattern of the float of sign \<open>neg\<close> and magnitude \<open>a\<close>, for a magnitude that
  binary32 represents: below \<open>2\<^bsup>-126\<^esup>\<close> a subnormal (or zero), otherwise the biased
  exponent and the fraction without its leading bit.
\<close>

definition f32_of_rat :: "bool \<Rightarrow> rat \<Rightarrow> u32" where
  "f32_of_rat neg a =
     (if neg then 0x80000000 else 0) OR
     (if a < 2 powi (- 126) then word_of_int \<lfloor>a * 2 powi 149\<rfloor>
      else push_bit 23 (word_of_int (ilog2 a + 127))
           + word_of_int (\<lfloor>a * 2 powi (23 - ilog2 a)\<rfloor> - 2 ^ 23))"

text \<open>
  The subtraction of two floats, \<open>a - b\<close>, under the default rounding (to nearest,
  ties to even).  An exact zero is negative only for \<open>(-0) - (+0)\<close>.  With a NaN
  operand, or for the difference of two equal infinities, the result is a quiet NaN;
  IEEE 754 leaves its payload open and the model has \<open>0x7fc00000\<close>.
\<close>

definition f32_sub :: "u32 \<Rightarrow> u32 \<Rightarrow> u32" where
  "f32_sub a b =
     (if f32_is_nan a \<or> f32_is_nan b then 0x7fc00000
      else if f32_exp a = 255 then
        (if f32_exp b = 255 \<and> f32_neg a = f32_neg b then 0x7fc00000 else a)
      else if f32_exp b = 255 then b XOR 0x80000000
      else
        let q = f32_value a - f32_value b in
        if q = 0 then (if f32_neg a \<and> \<not> f32_neg b then 0x80000000 else 0)
        else case round_ieee 24 (- 126) 127 q of
               Finite r \<Rightarrow> f32_of_rat (q < 0) \<bar>r\<bar>
             | Infinity n \<Rightarrow> (if n then 0xff800000 else 0x7f800000))"

text \<open>
  \<open>csafetensors_f16_to_f32\<close>.  The result is the float whose pattern is \<open>o.u\<close>.
  The shifts of the source are shifts of 32-bit patterns; \<open>(x & 0x8000) << 16\<close> yields
  \<open>0x80000000\<close> when the sign bit of \<open>x\<close> is set.
\<close>

definition csafetensors_f16_to_f32 :: "u16 \<Rightarrow> u32" where
  "csafetensors_f16_to_f32 x =
     (let shifted_exp = push_bit 13 (0x7c00 :: u32);
          o0 = push_bit 13 (ucast (x AND 0x7fff) :: u32);
          exp = shifted_exp AND o0;
          o1 = o0 + push_bit 23 (127 - 15);
          o2 = (if exp = shifted_exp then o1 + push_bit 23 (128 - 16)
                else if exp = 0 then
                  (let magic = push_bit 23 (113 :: u32)
                   in f32_sub (o1 + push_bit 23 1) magic)
                else o1)
      in o2 OR push_bit 16 (ucast (x AND 0x8000) :: u32))"

text \<open>
  \<open>csafetensors_f32_to_f16\<close>, from the pattern \<open>f32.u\<close> of its argument.  \<open>newexp\<close>
  is an \<open>int\<close>; \<open>result++\<close> is an increment of a \<open>uint16_t\<close>.
\<close>

definition csafetensors_f32_to_f16 :: "u32 \<Rightarrow> u16" where
  "csafetensors_f32_to_f16 u =
     (let sign = drop_bit 16 u AND 0x8000;
          exp = drop_bit 23 u AND 0xff;
          mant = u AND 0x7fffff
      in if exp = 0 then ucast sign
         else if exp = 255 then
           ucast (sign OR 0x7c00 OR (if mant \<noteq> 0 then 0x200 else 0))
         else
           let newexp = uint exp - 127 + 15 in
           if 31 \<le> newexp then ucast (sign OR 0x7c00)
           else if newexp \<le> 0 then
             (if 14 - newexp \<le> 24 then
                let m = mant OR 0x800000;
                    result = (ucast (sign OR drop_bit (nat (14 - newexp)) m) :: u16)
                in if drop_bit (nat (13 - newexp)) m AND 1 \<noteq> 0 then result + 1 else result
              else ucast sign)
           else
             let result = (ucast (sign OR push_bit 10 (word_of_int newexp) OR drop_bit 13 mant) :: u16)
             in if mant AND 0x1000 \<noteq> 0 then result + 1 else result)"

section \<open>The JSON reader\<close>

text \<open>
  The tree the reader builds.  An array holds its items in input order and an object
  its pairs in insertion order.  A string holds the bytes the reader wrote before the
  terminating NUL; the C code reads it back as a C string.
\<close>

datatype json_value =
    JSON_NULL
  | JSON_BOOL bool
  | JSON_NUMBER c_double
  | JSON_STRING string
  | JSON_ARRAY "json_value list"
  | JSON_OBJECT "(string \<times> json_value) list"

text \<open>
  The reader reports a failure by returning \<open>NULL\<close> with a message in
  \<open>p->error\<close>.  The messages are the constructors below; the byte offset that three
  of them print is left out.  \<open>malloc\<close>, \<open>calloc\<close> and \<open>realloc\<close> inside the reader
  are taken to succeed.
\<close>

datatype json_error =
    Expected_quote
  | Invalid_control_character
  | Unexpected_end_of_string
  | Invalid_unicode_escape
  | Invalid_escape_character
  | Unterminated_string
  | Unexpected_end_of_number
  | Invalid_number
  | Invalid_number_exponent
  | Expected_open_bracket
  | Unexpected_end_of_array
  | Expected_comma_or_close_bracket
  | Expected_open_brace
  | Expected_string_key
  | Expected_colon_after_key
  | Duplicate_key_in_object
  | Unexpected_end_of_object
  | Expected_comma_or_close_brace
  | Unexpected_end_of_input
  | Invalid_JSON_value

text \<open>
  The parser state \<open>p->pos .. p->end\<close> is the list of bytes not yet read.  A parsing
  function returns the error, or its result with the bytes that remain.
\<close>

type_synonym 'a parse_result = "json_error + ('a \<times> string)"

fun json_skip_whitespace :: "string \<Rightarrow> string" where
  "json_skip_whitespace [] = []"
| "json_skip_whitespace (c # s) =
     (if c = CHR '' '' \<or> c = CHR 0x09 \<or> c = CHR 0x0A \<or> c = CHR 0x0D
      then json_skip_whitespace s else c # s)"

text \<open>\<open>json_match\<close>: the rest after \<open>str\<close> when the input starts with it.\<close>

definition json_match :: "string \<Rightarrow> string \<Rightarrow> string option" where
  "json_match s str =
     (if length s < length str then None
      else if take (length str) s = str then Some (drop (length str) s)
      else None)"

definition json_hex_digit :: "char \<Rightarrow> nat option" where
  "json_hex_digit c =
     (let n = (of_char c :: nat)
      in if 48 \<le> n \<and> n \<le> 57 then Some (n - 48)
         else if 97 \<le> n \<and> n \<le> 102 then Some (10 + n - 97)
         else if 65 \<le> n \<and> n \<le> 70 then Some (10 + n - 65)
         else None)"

text \<open>Four hex digits, most significant first: the loop \<open>codepoint = (codepoint << 4) | digit\<close>.\<close>

fun hex4 :: "string \<Rightarrow> nat option" where
  "hex4 (a # b # c # d # _) =
     (case json_hex_digit a of None \<Rightarrow> None | Some x1 \<Rightarrow>
      case json_hex_digit b of None \<Rightarrow> None | Some x2 \<Rightarrow>
      case json_hex_digit c of None \<Rightarrow> None | Some x3 \<Rightarrow>
      case json_hex_digit d of None \<Rightarrow> None | Some x4 \<Rightarrow>
        Some (((x1 * 16 + x2) * 16 + x3) * 16 + x4))"
| "hex4 _ = None"

definition utf8_encode :: "nat \<Rightarrow> string" where
  "utf8_encode cp =
     (if cp < 0x80 then [char_of cp]
      else if cp < 0x800 then
        [char_of (0xC0 + cp div 64), char_of (0x80 + cp mod 64)]
      else if cp < 0x10000 then
        [char_of (0xE0 + cp div 4096), char_of (0x80 + (cp div 64) mod 64),
         char_of (0x80 + cp mod 64)]
      else
        [char_of (0xF0 + cp div 262144), char_of (0x80 + (cp div 4096) mod 64),
         char_of (0x80 + (cp div 64) mod 64), char_of (0x80 + cp mod 64)])"

text \<open>
  \<open>json_parse_unicode_escape\<close>, entered after \<open>\u\<close>: the UTF-8 bytes to append and the
  input that remains, or \<open>None\<close> where the C function returns false.
\<close>

definition json_parse_unicode_escape :: "string \<Rightarrow> (string \<times> string) option" where
  "json_parse_unicode_escape s =
     (case hex4 s of
        None \<Rightarrow> None
      | Some codepoint \<Rightarrow>
          let r = drop 4 s in
          if 0xD800 \<le> codepoint \<and> codepoint \<le> 0xDBFF then
            (if length r < 6 then None
             else if r ! 0 \<noteq> CHR 0x5C \<or> r ! 1 \<noteq> CHR ''u'' then None
             else case hex4 (drop 2 r) of
                    None \<Rightarrow> None
                  | Some low \<Rightarrow>
                      if low < 0xDC00 \<or> 0xDFFF < low then None
                      else Some (utf8_encode (0x10000 + (codepoint - 0xD800) * 1024 + (low - 0xDC00)),
                                 drop 6 r))
          else Some (utf8_encode codepoint, r))"

definition escape_char :: "char \<Rightarrow> char option" where
  "escape_char e =
     (if e = CHR 0x22 then Some (CHR 0x22)
      else if e = CHR 0x5C then Some (CHR 0x5C)
      else if e = CHR ''/'' then Some (CHR ''/'')
      else if e = CHR ''b'' then Some (CHR 0x08)
      else if e = CHR ''f'' then Some (CHR 0x0C)
      else if e = CHR ''n'' then Some (CHR 0x0A)
      else if e = CHR ''r'' then Some (CHR 0x0D)
      else if e = CHR ''t'' then Some (CHR 0x09)
      else None)"

text \<open>
  The \<open>while\<close> loop of \<open>json_parse_string\<close>; \<open>str\<close> is the buffer filled so far.
\<close>

function json_string_loop :: "string \<Rightarrow> string \<Rightarrow> string parse_result" where
  "json_string_loop str [] = Inl Unterminated_string"
| "json_string_loop str (c # s) =
     (if c = CHR 0x22 then Inr (str, s)
      else if (of_char c :: nat) < 0x20 then Inl Invalid_control_character
      else if c = CHR 0x5C then
        (case s of
           [] \<Rightarrow> Inl Unexpected_end_of_string
         | e # s' \<Rightarrow>
             if e = CHR ''u'' then
               (case json_parse_unicode_escape s' of
                  None \<Rightarrow> Inl Invalid_unicode_escape
                | Some (utf8, s'') \<Rightarrow> json_string_loop (str @ utf8) s'')
             else
               (case escape_char e of
                  None \<Rightarrow> Inl Invalid_escape_character
                | Some c' \<Rightarrow> json_string_loop (str @ [c']) s'))
      else json_string_loop (str @ [c]) s)"
  by pat_completeness auto

lemma json_parse_unicode_escape_length:
  "json_parse_unicode_escape s = Some (u, r) \<Longrightarrow> length r \<le> length s"
  by (auto simp: json_parse_unicode_escape_def Let_def split: option.splits if_splits)

termination json_string_loop
  by (relation "measure (\<lambda>(str, s). length s)")
     (auto dest: json_parse_unicode_escape_length)

definition json_parse_string :: "string \<Rightarrow> json_value parse_result" where
  "json_parse_string s =
     (case s of
        [] \<Rightarrow> Inl Expected_quote
      | c # r \<Rightarrow>
          if c \<noteq> CHR 0x22 then Inl Expected_quote
          else case json_string_loop [] r of
                 Inl e \<Rightarrow> Inl e
               | Inr (str, r') \<Rightarrow> Inr (JSON_STRING str, r'))"

text \<open>
  \<open>json_parse_number\<close>.  The scanner walks over the literal; \<open>strtod\<close> then converts
  the bytes walked over.
\<close>

definition number_sign :: "string \<Rightarrow> string" where
  "number_sign s = (case s of [] \<Rightarrow> [] | c # r \<Rightarrow> if c = CHR ''-'' then r else s)"

definition number_int :: "string \<Rightarrow> json_error + string" where
  "number_int s =
     (case s of
        [] \<Rightarrow> Inl Unexpected_end_of_number
      | c # r \<Rightarrow>
          if c = CHR ''0'' then Inr r
          else if 49 \<le> (of_char c :: nat) \<and> (of_char c :: nat) \<le> 57
          then Inr (dropWhile is_digit s)
          else Inl Invalid_number)"

definition number_frac :: "string \<Rightarrow> json_error + string" where
  "number_frac s =
     (case s of
        [] \<Rightarrow> Inr s
      | c # r \<Rightarrow>
          if c = CHR ''.'' then
            (case r of
               [] \<Rightarrow> Inl Invalid_number
             | d # _ \<Rightarrow> if is_digit d then Inr (dropWhile is_digit r) else Inl Invalid_number)
          else Inr s)"

definition number_exp :: "string \<Rightarrow> json_error + string" where
  "number_exp s =
     (case s of
        [] \<Rightarrow> Inr s
      | c # r \<Rightarrow>
          if c = CHR ''e'' \<or> c = CHR ''E'' then
            (let r1 = (case r of
                         [] \<Rightarrow> r
                       | g # r' \<Rightarrow> if g = CHR ''+'' \<or> g = CHR ''-'' then r' else r) in
             case r1 of
               [] \<Rightarrow> Inl Invalid_number_exponent
             | d # _ \<Rightarrow> if is_digit d then Inr (dropWhile is_digit r1)
                        else Inl Invalid_number_exponent)
          else Inr s)"

definition json_parse_number :: "string \<Rightarrow> json_value parse_result" where
  "json_parse_number s =
     (case number_int (number_sign s) of
        Inl e \<Rightarrow> Inl e
      | Inr s2 \<Rightarrow>
          (case number_frac s2 of
             Inl e \<Rightarrow> Inl e
           | Inr s3 \<Rightarrow>
               (case number_exp s3 of
                  Inl e \<Rightarrow> Inl e
                | Inr s4 \<Rightarrow>
                    Inr (JSON_NUMBER (strtod (take (length s - length s4) s)), s4))))"

text \<open>The field \<open>data.string\<close> of a string value.\<close>

fun data_string :: "json_value \<Rightarrow> string" where
  "data_string (JSON_STRING str) = str"
| "data_string _ = []"

text \<open>
  The duplicate-key scan of \<open>json_parse_object\<close>: some pair already stored has a key
  that \<open>strcmp\<close> finds equal.
\<close>

definition has_key :: "(string \<times> json_value) list \<Rightarrow> string \<Rightarrow> bool" where
  "has_key pairs k = list_ex (\<lambda>p. strcmp_eq (fst p) k) pairs"

text \<open>
  \<open>json_parse_value\<close>, \<open>json_parse_array\<close> and \<open>json_parse_object\<close>.  The
  \<open>for (;;)\<close> loops of the last two are \<open>json_array_loop\<close> and \<open>json_object_loop\<close>,
  entered at the top of the loop body with the items or pairs stored so far.
\<close>

function json_parse_value :: "string \<Rightarrow> json_value parse_result"
  and json_parse_array :: "string \<Rightarrow> json_value parse_result"
  and json_array_loop :: "json_value list \<Rightarrow> string \<Rightarrow> json_value parse_result"
  and json_parse_object :: "string \<Rightarrow> json_value parse_result"
  and json_object_loop :: "(string \<times> json_value) list \<Rightarrow> string \<Rightarrow> json_value parse_result"
where
  "json_parse_value s0 =
     (let s = json_skip_whitespace s0 in
      case s of
        [] \<Rightarrow> Inl Unexpected_end_of_input
      | c # r \<Rightarrow>
          if c = CHR ''n'' then
            (case json_match s ''null'' of
               Some r' \<Rightarrow> Inr (JSON_NULL, r')
             | None \<Rightarrow> Inl Invalid_JSON_value)
          else if c = CHR ''t'' then
            (case json_match s ''true'' of
               Some r' \<Rightarrow> Inr (JSON_BOOL True, r')
             | None \<Rightarrow> Inl Invalid_JSON_value)
          else if c = CHR ''f'' then
            (case json_match s ''false'' of
               Some r' \<Rightarrow> Inr (JSON_BOOL False, r')
             | None \<Rightarrow> Inl Invalid_JSON_value)
          else if c = CHR 0x22 then json_parse_string s
          else if c = CHR ''['' then json_parse_array s
          else if c = CHR ''{'' then json_parse_object s
          else if c = CHR ''-'' \<or> is_digit c then json_parse_number s
          else Inl Invalid_JSON_value)"
| "json_parse_array s =
     (case s of
        [] \<Rightarrow> Inl Expected_open_bracket
      | c # r \<Rightarrow>
          if c \<noteq> CHR ''['' then Inl Expected_open_bracket
          else
            let r1 = json_skip_whitespace r in
            (case r1 of
               [] \<Rightarrow> json_array_loop [] r1
             | d # r2 \<Rightarrow> if d = CHR '']'' then Inr (JSON_ARRAY [], r2)
                         else json_array_loop [] r1))"
| "json_array_loop items s =
     (case json_parse_value s of
        Inl e \<Rightarrow> Inl e
      | Inr (item, r) \<Rightarrow>
          (case json_skip_whitespace r of
             [] \<Rightarrow> Inl Unexpected_end_of_array
           | c # r1 \<Rightarrow>
               if c = CHR '']'' then Inr (JSON_ARRAY (items @ [item]), r1)
               else if c \<noteq> CHR '','' then Inl Expected_comma_or_close_bracket
               else json_array_loop (items @ [item]) (json_skip_whitespace r1)))"
| "json_parse_object s =
     (case s of
        [] \<Rightarrow> Inl Expected_open_brace
      | c # r \<Rightarrow>
          if c \<noteq> CHR ''{'' then Inl Expected_open_brace
          else
            let r1 = json_skip_whitespace r in
            (case r1 of
               [] \<Rightarrow> json_object_loop [] r1
             | d # r2 \<Rightarrow> if d = CHR ''}'' then Inr (JSON_OBJECT [], r2)
                         else json_object_loop [] r1))"
| "json_object_loop pairs s =
     (case s of
        [] \<Rightarrow> Inl Expected_string_key
      | q # _ \<Rightarrow>
          if q \<noteq> CHR 0x22 then Inl Expected_string_key
          else
            (case json_parse_string s of
               Inl e \<Rightarrow> Inl e
             | Inr (key_val, r) \<Rightarrow>
                 let key = data_string key_val in
                 (case json_skip_whitespace r of
                    [] \<Rightarrow> Inl Expected_colon_after_key
                  | c # r1 \<Rightarrow>
                      if c \<noteq> CHR '':'' then Inl Expected_colon_after_key
                      else
                        (case json_parse_value r1 of
                           Inl e \<Rightarrow> Inl e
                         | Inr (val, r2) \<Rightarrow>
                             if has_key pairs key then Inl Duplicate_key_in_object
                             else
                               (case json_skip_whitespace r2 of
                                  [] \<Rightarrow> Inl Unexpected_end_of_object
                                | d # r3 \<Rightarrow>
                                    if d = CHR ''}'' then Inr (JSON_OBJECT (pairs @ [(key, val)]), r3)
                                    else if d \<noteq> CHR '','' then Inl Expected_comma_or_close_brace
                                    else json_object_loop (pairs @ [(key, val)])
                                           (json_skip_whitespace r3))))))"
  by pat_completeness auto


lemma json_skip_whitespace_length: "length (json_skip_whitespace s) \<le> length s"
  by (induction s) auto

lemma json_skip_whitespace_Cons_length:
  "json_skip_whitespace s = c # r \<Longrightarrow> length r < length s"
  using json_skip_whitespace_length [of s] by simp

lemma json_string_loop_length:
  "json_string_loop str s = Inr (k, r) \<Longrightarrow> length r < length s"
proof (induction str s rule: json_string_loop.induct)
  case (1 str)
  then show ?case by simp
next
  case (2 str c s)
  show ?case
  proof (cases "c = CHR 0x22")
    case True
    with "2.prems" show ?thesis by simp
  next
    case nq: False
    show ?thesis
    proof (cases "(of_char c :: nat) < 0x20")
      case True
      with nq "2.prems" show ?thesis by simp
    next
      case nc: False
      show ?thesis
      proof (cases "c = CHR 0x5C")
        case False
        with nq nc "2.prems" have "json_string_loop (str @ [c]) s = Inr (k, r)" by simp
        from "2.IH"(3) [OF nq nc False this] show ?thesis by simp
      next
        case bs: True
        show ?thesis
        proof (cases s)
          case Nil
          with nq nc bs "2.prems" show ?thesis by simp
        next
          case (Cons e s')
          show ?thesis
          proof (cases "e = CHR ''u''")
            case True
            show ?thesis
            proof (cases "json_parse_unicode_escape s'")
              case None
              with nq nc bs Cons True "2.prems" show ?thesis by simp
            next
              case (Some p)
              obtain utf8 s'' where p: "p = (utf8, s'')" by (cases p)
              from nq nc bs Cons True Some p "2.prems"
              have "json_string_loop (str @ utf8) s'' = Inr (k, r)" by simp
              from "2.IH"(1) [OF nq nc bs Cons True Some p [symmetric] this]
              have "length r < length s''" .
              moreover from Some p have "length s'' \<le> length s'"
                by (auto dest: json_parse_unicode_escape_length)
              ultimately show ?thesis using Cons by simp
            qed
          next
            case False
            show ?thesis
            proof (cases "escape_char e")
              case None
              with nq nc bs Cons False "2.prems" show ?thesis by simp
            next
              case (Some c')
              from nq nc bs Cons False Some "2.prems"
              have "json_string_loop (str @ [c']) s' = Inr (k, r)" by simp
              from "2.IH"(2) [OF nq nc bs Cons False Some this]
              show ?thesis using Cons by simp
            qed
          qed
        qed
      qed
    qed
  qed
qed

lemma json_parse_string_length:
  "json_parse_string s = Inr (v, r) \<Longrightarrow> length r < length s"
  by (auto simp: json_parse_string_def split: list.splits if_splits sum.splits
           dest!: json_string_loop_length)

lemma json_match_length:
  "json_match s str = Some r \<Longrightarrow> str \<noteq> [] \<Longrightarrow> length r < length s"
  by (cases str) (auto simp: json_match_def split: if_splits)

lemma length_dropWhile_is_digit: "length (dropWhile is_digit xs) \<le> length xs"
  by (induction xs) auto

lemma number_sign_length: "length (number_sign s) \<le> length s"
  by (auto simp: number_sign_def split: list.splits)

lemma number_int_length: "number_int s = Inr r \<Longrightarrow> length r < length s"
  using length_dropWhile_is_digit [of "tl s"]
  by (auto simp: number_int_def is_digit_def split: list.splits if_splits)

lemma number_frac_length: "number_frac s = Inr r \<Longrightarrow> length r \<le> length s"
  using length_dropWhile_is_digit [of "tl s"]
  by (auto simp: number_frac_def split: list.splits if_splits)

lemma number_exp_length: "number_exp s = Inr r \<Longrightarrow> length r \<le> length s"
  using length_dropWhile_is_digit [of "tl s"] length_dropWhile_is_digit [of "tl (tl s)"]
    length_dropWhile_is_digit [of "tl (tl (tl s))"]
  by (auto simp: number_exp_def Let_def split: list.splits if_splits)

lemma json_parse_number_length:
  assumes "json_parse_number s = Inr (v, r)"
  shows "length r < length s"
proof -
  from assms obtain s2 s3 where
    "number_int (number_sign s) = Inr s2" "number_frac s2 = Inr s3" "number_exp s3 = Inr r"
    by (auto simp: json_parse_number_def split: sum.splits)
  then show ?thesis
    using number_sign_length [of s]
    by (auto dest!: number_int_length number_frac_length number_exp_length)
qed

lemma json_parse_partial_length:
  "json_parse_value_json_parse_array_json_array_loop_json_parse_object_json_object_loop_dom (Inl (Inl s))
     \<Longrightarrow> \<forall>v r. json_parse_value s = Inr (v, r) \<longrightarrow> length r < length s"
  "json_parse_value_json_parse_array_json_array_loop_json_parse_object_json_object_loop_dom (Inl (Inr s1))
     \<Longrightarrow> \<forall>v r. json_parse_array s1 = Inr (v, r) \<longrightarrow> length r < length s1"
  "json_parse_value_json_parse_array_json_array_loop_json_parse_object_json_object_loop_dom (Inr (Inl (items, s2)))
     \<Longrightarrow> \<forall>v r. json_array_loop items s2 = Inr (v, r) \<longrightarrow> length r < length s2"
  "json_parse_value_json_parse_array_json_array_loop_json_parse_object_json_object_loop_dom (Inr (Inr (Inl s3)))
     \<Longrightarrow> \<forall>v r. json_parse_object s3 = Inr (v, r) \<longrightarrow> length r < length s3"
  "json_parse_value_json_parse_array_json_array_loop_json_parse_object_json_object_loop_dom (Inr (Inr (Inr (pairs, s4))))
     \<Longrightarrow> \<forall>v r. json_object_loop pairs s4 = Inr (v, r) \<longrightarrow> length r < length s4"
proof (induct rule: json_parse_value_json_parse_array_json_array_loop_json_parse_object_json_object_loop.pinduct)
  case (1 s0)
  show ?case
  proof (intro allI impI)
    fix v r
    assume a: "json_parse_value s0 = Inr (v, r)"
    define x where "x = json_skip_whitespace s0"
    have lx: "length x \<le> length s0"
      unfolding x_def by (rule json_skip_whitespace_length)
    from a have b: "(case x of
        [] \<Rightarrow> Inl Unexpected_end_of_input
      | c # r \<Rightarrow>
          if c = CHR ''n'' then
            (case json_match x ''null'' of
               Some r' \<Rightarrow> Inr (JSON_NULL, r')
             | None \<Rightarrow> Inl Invalid_JSON_value)
          else if c = CHR ''t'' then
            (case json_match x ''true'' of
               Some r' \<Rightarrow> Inr (JSON_BOOL True, r')
             | None \<Rightarrow> Inl Invalid_JSON_value)
          else if c = CHR ''f'' then
            (case json_match x ''false'' of
               Some r' \<Rightarrow> Inr (JSON_BOOL False, r')
             | None \<Rightarrow> Inl Invalid_JSON_value)
          else if c = CHR 0x22 then json_parse_string x
          else if c = CHR ''['' then json_parse_array x
          else if c = CHR ''{'' then json_parse_object x
          else if c = CHR ''-'' \<or> is_digit c then json_parse_number x
          else Inl Invalid_JSON_value) = Inr (v, r)"
      unfolding x_def by (simp add: json_parse_value.psimps [OF "1.hyps"(1)] Let_def)
    then obtain c t where xc: "x = c # t" by (cases x) auto
    have "length r < length x"
    proof -
      consider (n) "c = CHR ''n''" | (t) "c = CHR ''t''" | (f) "c = CHR ''f''"
        | (q) "c = CHR 0x22" | (a) "c = CHR ''[''" | (o) "c = CHR ''{''"
        | (other) "c \<noteq> CHR ''n''" "c \<noteq> CHR ''t''" "c \<noteq> CHR ''f''" "c \<noteq> CHR 0x22"
                  "c \<noteq> CHR ''[''" "c \<noteq> CHR ''{''"
        by blast
      then show ?thesis
      proof cases
        case n
        with b xc show ?thesis
          by (auto split: option.splits dest!: json_match_length)
      next
        case t
        with b xc show ?thesis
          by (auto split: option.splits dest!: json_match_length)
      next
        case f
        with b xc show ?thesis
          by (auto split: option.splits dest!: json_match_length)
      next
        case q
        with b xc have "json_parse_string x = Inr (v, r)" by simp
        then show ?thesis by (rule json_parse_string_length)
      next
        case a
        with b xc have "json_parse_array x = Inr (v, r)" by simp
        moreover have "\<forall>v r. json_parse_array x = Inr (v, r) \<longrightarrow> length r < length x"
          by (rule "1.hyps"(2) [OF x_def xc]) (use a in simp_all)
        ultimately show ?thesis by blast
      next
        case o
        with b xc have "json_parse_object x = Inr (v, r)" by simp
        moreover have "\<forall>v r. json_parse_object x = Inr (v, r) \<longrightarrow> length r < length x"
          by (rule "1.hyps"(3) [OF x_def xc]) (use o in simp_all)
        ultimately show ?thesis by blast
      next
        case other
        with b xc have "json_parse_number x = Inr (v, r)"
          by (auto split: if_splits)
        then show ?thesis by (rule json_parse_number_length)
      qed
    qed
    with lx show "length r < length s0" by simp
  qed
next
  case (2 s)
  show ?case
  proof (intro allI impI)
    fix v r
    assume a: "json_parse_array s = Inr (v, r)"
    note a' = a [unfolded json_parse_array.psimps [OF "2.hyps"(1)]]
    from a' obtain t where s: "s = CHR ''['' # t"
      by (cases s) (auto split: if_splits)
    define x where "x = json_skip_whitespace t"
    have lx: "length x \<le> length t"
      unfolding x_def by (rule json_skip_whitespace_length)
    show "length r < length s"
    proof (cases x)
      case Nil
      with a' s have "json_array_loop [] x = Inr (v, r)"
        by (simp add: Let_def x_def [symmetric])
      moreover have "\<forall>v r. json_array_loop [] x = Inr (v, r) \<longrightarrow> length r < length x"
        by (rule "2.hyps"(2) [OF s _ x_def Nil]) simp
      ultimately show ?thesis using lx s by fastforce
    next
      case (Cons d r2)
      show ?thesis
      proof (cases "d = CHR '']''")
        case True
        with a' s Cons have "r = r2"
          by (simp add: Let_def x_def [symmetric])
        with lx Cons s show ?thesis by simp
      next
        case False
        with a' s Cons have "json_array_loop [] x = Inr (v, r)"
          by (simp add: Let_def x_def [symmetric])
        moreover have "\<forall>v r. json_array_loop [] x = Inr (v, r) \<longrightarrow> length r < length x"
          by (rule "2.hyps"(3) [OF s _ x_def Cons False]) simp
        ultimately show ?thesis using lx s by fastforce
      qed
    qed
  qed
next
  case (3 items s)
  show ?case
  proof (intro allI impI)
    fix v r
    assume a: "json_array_loop items s = Inr (v, r)"
    note ps = json_array_loop.psimps [OF "3.hyps"(1)]
    from a obtain item y where pv: "json_parse_value s = Inr (item, y)"
      by (cases "json_parse_value s") (auto simp: ps)
    with "3.hyps"(2) have ly: "length y < length s" by blast
    from a pv obtain c r1 where sk: "json_skip_whitespace y = c # r1"
      by (cases "json_skip_whitespace y") (auto simp: ps)
    have l1: "length r1 < length y" using sk by (rule json_skip_whitespace_Cons_length)
    show "length r < length s"
    proof (cases "c = CHR '']''")
      case True
      with a pv sk have "r = r1" by (simp add: ps)
      with l1 ly show ?thesis by simp
    next
      case False
      with a pv sk have c: "c = CHR '',''" by (auto simp: ps split: if_splits)
      with a pv sk False
      have "json_array_loop (items @ [item]) (json_skip_whitespace r1) = Inr (v, r)"
        by (simp add: ps)
      moreover have "\<forall>v r. json_array_loop (items @ [item]) (json_skip_whitespace r1) = Inr (v, r)
           \<longrightarrow> length r < length (json_skip_whitespace r1)"
        by (rule "3.hyps"(3) [OF pv refl sk False]) (use c in simp)
      ultimately have "length r < length (json_skip_whitespace r1)" by blast
      with json_skip_whitespace_length [of r1] l1 ly show ?thesis by simp
    qed
  qed
next
  case (4 s)
  show ?case
  proof (intro allI impI)
    fix v r
    assume a: "json_parse_object s = Inr (v, r)"
    note a' = a [unfolded json_parse_object.psimps [OF "4.hyps"(1)]]
    from a' obtain t where s: "s = CHR ''{'' # t"
      by (cases s) (auto split: if_splits)
    define x where "x = json_skip_whitespace t"
    have lx: "length x \<le> length t"
      unfolding x_def by (rule json_skip_whitespace_length)
    show "length r < length s"
    proof (cases x)
      case Nil
      with a' s have "json_object_loop [] x = Inr (v, r)"
        by (simp add: Let_def x_def [symmetric])
      moreover have "\<forall>v r. json_object_loop [] x = Inr (v, r) \<longrightarrow> length r < length x"
        by (rule "4.hyps"(2) [OF s _ x_def Nil]) simp
      ultimately show ?thesis using lx s by fastforce
    next
      case (Cons d r2)
      show ?thesis
      proof (cases "d = CHR ''}''")
        case True
        with a' s Cons have "r = r2"
          by (simp add: Let_def x_def [symmetric])
        with lx Cons s show ?thesis by simp
      next
        case False
        with a' s Cons have "json_object_loop [] x = Inr (v, r)"
          by (simp add: Let_def x_def [symmetric])
        moreover have "\<forall>v r. json_object_loop [] x = Inr (v, r) \<longrightarrow> length r < length x"
          by (rule "4.hyps"(3) [OF s _ x_def Cons False]) simp
        ultimately show ?thesis using lx s by fastforce
      qed
    qed
  qed
next
  case (5 pairs s)
  show ?case
  proof (intro allI impI)
    fix v r
    assume a: "json_object_loop pairs s = Inr (v, r)"
    note ps = json_object_loop.psimps [OF "5.hyps"(1)]
    note a' = a [unfolded ps]
    from a' obtain q t where s: "s = q # t" and q: "\<not> q \<noteq> CHR 0x22"
      by (cases s) (auto split: if_splits)
    from a' s q obtain key_val y where pk: "json_parse_string s = Inr (key_val, y)"
      by (cases "json_parse_string s") (auto simp: ps)
    have ly: "length y < length s" using pk by (rule json_parse_string_length)
    from a' s q pk obtain c r1 where sk: "json_skip_whitespace y = c # r1"
      by (cases "json_skip_whitespace y") (auto simp: Let_def)
    have l1: "length r1 < length y" using sk by (rule json_skip_whitespace_Cons_length)
    from a' s q pk sk have c: "\<not> c \<noteq> CHR '':''"
      by (auto simp: Let_def split: if_splits)
    from a' s q pk sk c obtain val r2 where pv: "json_parse_value r1 = Inr (val, r2)"
      by (cases "json_parse_value r1") (auto simp: Let_def)
    have "\<forall>v r. json_parse_value r1 = Inr (v, r) \<longrightarrow> length r < length r1"
      by (rule "5.hyps"(2) [OF s q pk refl refl sk c])
    with pv have l2: "length r2 < length r1" by blast
    from a' s q pk sk c pv have nk: "\<not> has_key pairs (data_string key_val)"
      by (auto simp: Let_def split: if_splits)
    from a' s q pk sk c pv nk obtain d r3 where sk2: "json_skip_whitespace r2 = d # r3"
      by (cases "json_skip_whitespace r2") (auto simp: Let_def)
    have l3: "length r3 < length r2" using sk2 by (rule json_skip_whitespace_Cons_length)
    show "length r < length s"
    proof (cases "d = CHR ''}''")
      case True
      with a' s q pk sk c pv nk sk2 have "r = r3" by (simp add: Let_def)
      with l3 l2 l1 ly show ?thesis by simp
    next
      case False
      with a' s q pk sk c pv nk sk2 have d: "\<not> d \<noteq> CHR '',''"
        by (auto simp: Let_def split: if_splits)
      with a' s q pk sk c pv nk sk2 False
      have "json_object_loop (pairs @ [(data_string key_val, val)]) (json_skip_whitespace r3)
              = Inr (v, r)"
        by (simp add: Let_def)
      moreover have "\<forall>v r. json_object_loop (pairs @ [(data_string key_val, val)])
              (json_skip_whitespace r3) = Inr (v, r)
           \<longrightarrow> length r < length (json_skip_whitespace r3)"
        by (rule "5.hyps"(3) [OF s q pk refl refl sk c pv refl nk sk2 False d])
      ultimately have "length r < length (json_skip_whitespace r3)" by blast
      with json_skip_whitespace_length [of r3] l3 l2 l1 ly show ?thesis by simp
    qed
  qed
qed

lemma json_parse_value_partial_length:
  "json_parse_value_json_parse_array_json_array_loop_json_parse_object_json_object_loop_dom (Inl (Inl s))
     \<Longrightarrow> json_parse_value s = Inr (v, r) \<Longrightarrow> length r < length s"
  using json_parse_partial_length(1) by blast

lemma json_skip_whitespace_less:
  "length r < n \<Longrightarrow> length (json_skip_whitespace r) < n"
  using json_skip_whitespace_length [of r] by simp

lemma json_parse_all_dom:
  "All json_parse_value_json_parse_array_json_array_loop_json_parse_object_json_object_loop_dom"
  apply (relation "measures [\<lambda>x. case x of Inl (Inl s) \<Rightarrow> length s | Inl (Inr s) \<Rightarrow> length s | Inr (Inl (_, s)) \<Rightarrow> length s
     | Inr (Inr (Inl s)) \<Rightarrow> length s | Inr (Inr (Inr (_, s))) \<Rightarrow> length s,
      \<lambda>x. case x of Inl (Inl s) \<Rightarrow> 1 | Inl (Inr s) \<Rightarrow> 0 | Inr (Inl (_, s)) \<Rightarrow> 2
     | Inr (Inr (Inl s)) \<Rightarrow> 0 | Inr (Inr (Inr (_, s))) \<Rightarrow> 2]")
             apply simp_all
  subgoal for s0 using json_skip_whitespace_length [of s0] by auto
  subgoal for s0 using json_skip_whitespace_length [of s0] by auto
  subgoal by (rule json_skip_whitespace_less) simp
  subgoal for s b x y x21 x22
    by (rule json_skip_whitespace_less)
       (use json_parse_value_partial_length [of s x y]
            json_skip_whitespace_Cons_length [of y x21 x22] in auto)
  subgoal by (rule json_skip_whitespace_less) simp
  subgoal for s x21 x22 b x y xa x21a x22a
    using json_parse_string_length [of s x y]
          json_skip_whitespace_Cons_length [of y x21a x22a] by auto
  subgoal for pairs s x21 x22 b x y xa x21a x22a ba xb ya x21b x22b
    by (rule json_skip_whitespace_less)
       (use json_parse_string_length [of s x y]
            json_skip_whitespace_Cons_length [of y x21a x22a]
            json_parse_value_partial_length [of x22a xb ya]
            json_skip_whitespace_Cons_length [of ya x21b x22b] in auto)
  done

termination json_parse_value
  by (rule json_parse_all_dom)

declare json_parse_value.simps [simp del] json_parse_array.simps [simp del]
  json_array_loop.simps [simp del] json_parse_object.simps [simp del]
  json_object_loop.simps [simp del]

lemma json_parse_value_length:
  "json_parse_value s = Inr (v, r) \<Longrightarrow> length r < length s"
  using json_parse_value_partial_length json_parse_all_dom by blast

text \<open>\<open>json_object_get\<close>: the value of the first pair whose key \<open>strcmp\<close> finds equal.\<close>

fun json_object_get :: "json_value \<Rightarrow> string \<Rightarrow> json_value option" where
  "json_object_get (JSON_OBJECT pairs) k =
     map_option snd (find (\<lambda>p. strcmp_eq (fst p) k) pairs)"
| "json_object_get _ k = None"

section \<open>Data model of the loader\<close>

text \<open>The enumerations of \<open>csafetensors.h\<close>, in declaration order.\<close>

datatype csafetensors_dtype =
    CSAFETENSORS_DTYPE_BOOL
  | CSAFETENSORS_DTYPE_UINT8
  | CSAFETENSORS_DTYPE_INT8
  | CSAFETENSORS_DTYPE_INT16
  | CSAFETENSORS_DTYPE_UINT16
  | CSAFETENSORS_DTYPE_FLOAT16
  | CSAFETENSORS_DTYPE_BFLOAT16
  | CSAFETENSORS_DTYPE_INT32
  | CSAFETENSORS_DTYPE_UINT32
  | CSAFETENSORS_DTYPE_FLOAT32
  | CSAFETENSORS_DTYPE_FLOAT64
  | CSAFETENSORS_DTYPE_INT64
  | CSAFETENSORS_DTYPE_UINT64

datatype csafetensors_error =
    CSAFETENSORS_SUCCESS
  | CSAFETENSORS_ERROR_INVALID_ARGUMENT
  | CSAFETENSORS_ERROR_FILE_NOT_FOUND
  | CSAFETENSORS_ERROR_FILE_READ
  | CSAFETENSORS_ERROR_INVALID_HEADER
  | CSAFETENSORS_ERROR_JSON_PARSE
  | CSAFETENSORS_ERROR_MEMORY_ALLOCATION
  | CSAFETENSORS_ERROR_MMAP_FAILED
  | CSAFETENSORS_ERROR_INVALID_TENSOR
  | CSAFETENSORS_ERROR_BUFFER_TOO_SMALL

definition CSAFETENSORS_MAX_DIM :: nat where
  "CSAFETENSORS_MAX_DIM = 8"

definition CSAFETENSORS_MAX_STRING_LEN :: nat where
  "CSAFETENSORS_MAX_STRING_LEN = 4096"

definition CSAFETENSORS_MAX_JSON_SIZE :: u64 where
  "CSAFETENSORS_MAX_JSON_SIZE = 100 * 1024 * 1024"

text \<open>
  \<open>error_msg\<close> is a buffer of 1024 bytes, written by \<open>snprintf\<close>.  A message of
  fixed text is named by a constructor (each is far shorter than the buffer), and
  \<open>JSON_parse_error\<close> carries the reader's own message, which fits as well.  A message
  that prints a tensor name, a dtype string or a number is \<open>Printed\<close> with the bytes
  \<open>snprintf\<close> leaves in the buffer: the first 1023 bytes of the formatted text.
\<close>

datatype message =
    No_message
  | Data_too_short
  | Header_size_too_small
  | Header_size_exceeds_limit
  | Header_size_exceeds_data_size
  | JSON_parse_error json_error
  | Root_JSON_must_be_an_object
  | Memory_allocation_failed
  | Printed string

definition snprintf_error_msg :: "string \<Rightarrow> message" where
  "snprintf_error_msg text = Printed (take 1023 text)"

text \<open>The conversions \<open>'%s'\<close> (a C string between apostrophes) and \<open>%zu\<close>.\<close>

definition quoted :: "string \<Rightarrow> string" where
  "quoted s = [CHR 0x27] @ c_str s @ [CHR 0x27]"

fun decimal :: "nat \<Rightarrow> string" where
  "decimal n = (if n < 10 then [char_of (48 + n)]
                else decimal (n div 10) @ [char_of (48 + n mod 10)])"

declare decimal.simps [simp del]

text \<open>The messages of \<open>parse_tensor\<close>.\<close>

definition Tensor_is_not_a_JSON_object :: "string \<Rightarrow> message" where
  "Tensor_is_not_a_JSON_object nm =
     snprintf_error_msg (''Tensor '' @ quoted nm @ '' is not a JSON object'')"

definition Tensor_missing_dtype_string :: "string \<Rightarrow> message" where
  "Tensor_missing_dtype_string nm =
     snprintf_error_msg (''Tensor '' @ quoted nm @ '' missing '' @ quoted ''dtype'' @ '' string'')"

definition Unknown_dtype_in_tensor :: "string \<Rightarrow> string \<Rightarrow> message" where
  "Unknown_dtype_in_tensor ds nm =
     snprintf_error_msg (''Unknown dtype '' @ quoted ds @ '' in tensor '' @ quoted nm)"

definition Tensor_missing_shape_array :: "string \<Rightarrow> message" where
  "Tensor_missing_shape_array nm =
     snprintf_error_msg (''Tensor '' @ quoted nm @ '' missing '' @ quoted ''shape'' @ '' array'')"

definition Tensor_has_too_many_dimensions :: "string \<Rightarrow> nat \<Rightarrow> message" where
  "Tensor_has_too_many_dimensions nm n =
     snprintf_error_msg
       (''Tensor '' @ quoted nm @ '' has too many dimensions ('' @ decimal n @ '')'')"

definition Invalid_shape_dimension_in_tensor :: "string \<Rightarrow> message" where
  "Invalid_shape_dimension_in_tensor nm =
     snprintf_error_msg (''Invalid shape dimension in tensor '' @ quoted nm)"

definition Empty_tensor_should_not_have_data_offsets :: "string \<Rightarrow> message" where
  "Empty_tensor_should_not_have_data_offsets nm =
     snprintf_error_msg (''Empty tensor '' @ quoted nm @ '' should not have data_offsets'')"

definition Tensor_missing_valid_data_offsets_array :: "string \<Rightarrow> message" where
  "Tensor_missing_valid_data_offsets_array nm =
     snprintf_error_msg
       (''Tensor '' @ quoted nm @ '' missing valid '' @ quoted ''data_offsets'' @ '' array'')"

definition Invalid_data_offsets_in_tensor :: "string \<Rightarrow> message" where
  "Invalid_data_offsets_in_tensor nm =
     snprintf_error_msg (''Invalid data_offsets in tensor '' @ quoted nm)"

text \<open>The messages of \<open>csafetensors_validate\<close>.\<close>

definition Begin_offset_gt_end_offset :: "string \<Rightarrow> message" where
  "Begin_offset_gt_end_offset nm =
     snprintf_error_msg (''Tensor '' @ quoted nm @ '': begin offset > end offset'')"

definition Data_offset_exceeds_buffer_size :: "string \<Rightarrow> message" where
  "Data_offset_exceeds_buffer_size nm =
     snprintf_error_msg (''Tensor '' @ quoted nm @ '': data offset exceeds buffer size'')"

definition Size_mismatch :: "string \<Rightarrow> size_t \<Rightarrow> size_t \<Rightarrow> message" where
  "Size_mismatch nm expected got =
     snprintf_error_msg
       (''Tensor '' @ quoted nm @ '': size mismatch (expected '' @ decimal (unat expected)
          @ '', got '' @ decimal (unat got) @ '')'')"

text \<open>
  \<open>csafetensors_tensor_t\<close>.  \<open>shape\<close> holds the entries \<open>shape[0 .. n_dims)\<close> of the C
  array, so \<open>n_dims\<close> is its length; the entries beyond stay zero and are never read.
  \<open>name\<close> is the C string in the 4096-byte array.
\<close>

record csafetensors_tensor =
  name :: string
  dtype :: csafetensors_dtype
  shape :: "size_t list"
  data_offset_begin :: size_t
  data_offset_end :: size_t

definition n_dims :: "csafetensors_tensor \<Rightarrow> nat" where
  "n_dims t = length (shape t)"

record csafetensors_metadata =
  meta_key :: string
  meta_value :: string

text \<open>
  \<open>csafetensors_t\<close>.  \<open>tensors\<close> and \<open>metadata\<close> are the two arrays with their counts
  \<open>n_tensors\<close> and \<open>n_metadata\<close>; \<open>storage_content\<close> is what the block at
  \<open>storage\<close> holds.  The two handles used by the file loaders are left out.
\<close>

record csafetensors =
  tensors :: "csafetensors_tensor list"
  metadata :: "csafetensors_metadata list"
  header_size :: size_t
  storage :: pointer
  storage_content :: string
  storage_size :: size_t
  mmaped :: bool
  mmap_addr :: pointer
  mmap_size :: size_t
  databuffer_addr :: pointer
  databuffer_size :: size_t
  error_msg :: message

definition n_tensors :: "csafetensors \<Rightarrow> nat" where
  "n_tensors st = length (tensors st)"

definition n_metadata :: "csafetensors \<Rightarrow> nat" where
  "n_metadata st = length (metadata st)"

text \<open>\<open>csafetensors_init\<close> zero-fills the structure.\<close>

definition csafetensors_init :: csafetensors where
  "csafetensors_init =
     \<lparr>tensors = [], metadata = [], header_size = 0, storage = NULL, storage_content = [],
      storage_size = 0, mmaped = False, mmap_addr = NULL, mmap_size = 0,
      databuffer_addr = NULL, databuffer_size = 0, error_msg = No_message\<rparr>"

section \<open>Header validator\<close>

definition parse_dtype_string :: "string \<Rightarrow> csafetensors_dtype option" where
  "parse_dtype_string s =
     (if strcmp_eq s ''BOOL'' then Some CSAFETENSORS_DTYPE_BOOL
      else if strcmp_eq s ''U8'' then Some CSAFETENSORS_DTYPE_UINT8
      else if strcmp_eq s ''I8'' then Some CSAFETENSORS_DTYPE_INT8
      else if strcmp_eq s ''U16'' then Some CSAFETENSORS_DTYPE_UINT16
      else if strcmp_eq s ''I16'' then Some CSAFETENSORS_DTYPE_INT16
      else if strcmp_eq s ''U32'' then Some CSAFETENSORS_DTYPE_UINT32
      else if strcmp_eq s ''I32'' then Some CSAFETENSORS_DTYPE_INT32
      else if strcmp_eq s ''U64'' then Some CSAFETENSORS_DTYPE_UINT64
      else if strcmp_eq s ''I64'' then Some CSAFETENSORS_DTYPE_INT64
      else if strcmp_eq s ''F16'' then Some CSAFETENSORS_DTYPE_FLOAT16
      else if strcmp_eq s ''BF16'' then Some CSAFETENSORS_DTYPE_BFLOAT16
      else if strcmp_eq s ''F32'' then Some CSAFETENSORS_DTYPE_FLOAT32
      else if strcmp_eq s ''F64'' then Some CSAFETENSORS_DTYPE_FLOAT64
      else None)"

text \<open>
  The tests \<open>v && v->type == JSON_TYPE_...\<close> on a pointer that may be \<open>NULL\<close>, with
  the field then read.
\<close>

fun get_string :: "json_value option \<Rightarrow> string option" where
  "get_string (Some (JSON_STRING s)) = Some s"
| "get_string _ = None"

fun get_array :: "json_value option \<Rightarrow> json_value list option" where
  "get_array (Some (JSON_ARRAY items)) = Some items"
| "get_array _ = None"

fun get_number :: "json_value \<Rightarrow> c_double option" where
  "get_number (JSON_NUMBER d) = Some d"
| "get_number _ = None"

fun is_object :: "json_value \<Rightarrow> bool" where
  "is_object (JSON_OBJECT _) = True"
| "is_object _ = False"

text \<open>
  The shape loop of \<open>parse_tensor\<close>: \<open>None\<close> at an item that is not a number, else
  the dimensions \<open>(size_t)dim->data.number\<close>.
\<close>

fun parse_shape :: "(c_double \<Rightarrow> size_t) \<Rightarrow> json_value list \<Rightarrow> size_t list option" where
  "parse_shape oor [] = Some []"
| "parse_shape oor (dm # dims) =
     (case get_number dm of
        None \<Rightarrow> None
      | Some d \<Rightarrow>
          (case parse_shape oor dims of
             None \<Rightarrow> None
           | Some sh \<Rightarrow> Some (double_to_size_t oor d # sh)))"

definition parse_tensor ::
  "(c_double \<Rightarrow> size_t) \<Rightarrow> string \<Rightarrow> json_value \<Rightarrow> message + csafetensors_tensor" where
  "parse_tensor oor nm obj =
     (if \<not> is_object obj then Inl (Tensor_is_not_a_JSON_object nm)
      else
        case get_string (json_object_get obj ''dtype'') of
          None \<Rightarrow> Inl (Tensor_missing_dtype_string nm)
        | Some ds \<Rightarrow>
        case parse_dtype_string ds of
          None \<Rightarrow> Inl (Unknown_dtype_in_tensor ds nm)
        | Some dt \<Rightarrow>
        case get_array (json_object_get obj ''shape'') of
          None \<Rightarrow> Inl (Tensor_missing_shape_array nm)
        | Some dims \<Rightarrow>
        if CSAFETENSORS_MAX_DIM < length dims
        then Inl (Tensor_has_too_many_dimensions nm (length dims))
        else
        case parse_shape oor dims of
          None \<Rightarrow> Inl (Invalid_shape_dimension_in_tensor nm)
        | Some shp \<Rightarrow>
        let is_empty = list_ex (\<lambda>d. d = 0) shp;
            offsets_val = json_object_get obj ''data_offsets'';
            tensor = \<lparr>name = strncpy_zeroed (CSAFETENSORS_MAX_STRING_LEN - 1) nm,
                      dtype = dt, shape = shp,
                      data_offset_begin = 0, data_offset_end = 0\<rparr>
        in
        if is_empty then
          (if offsets_val \<noteq> None
           then Inl (Empty_tensor_should_not_have_data_offsets nm)
           else Inr tensor)
        else
          case get_array offsets_val of
            None \<Rightarrow> Inl (Tensor_missing_valid_data_offsets_array nm)
          | Some items \<Rightarrow>
          if length items \<noteq> 2 then Inl (Tensor_missing_valid_data_offsets_array nm)
          else
          case get_number (items ! 0) of
            None \<Rightarrow> Inl (Invalid_data_offsets_in_tensor nm)
          | Some b \<Rightarrow>
          case get_number (items ! 1) of
            None \<Rightarrow> Inl (Invalid_data_offsets_in_tensor nm)
          | Some e \<Rightarrow>
              Inr (tensor\<lparr>data_offset_begin := double_to_size_t oor b,
                          data_offset_end := double_to_size_t oor e\<rparr>))"

text \<open>
  The header size: \<open>memcpy\<close> of the first eight bytes into a \<open>uint64_t\<close> on a
  little-endian machine.
\<close>

definition read_u64_le :: "string \<Rightarrow> u64" where
  "read_u64_le data = foldr (\<lambda>c acc. of_char c + 256 * acc) (take 8 data) 0"

text \<open>The counting loop of \<open>parse_safetensors_header\<close>, from the counts so far.\<close>

fun count_loop :: "(string \<times> json_value) list \<Rightarrow> nat \<Rightarrow> nat \<Rightarrow> nat \<times> nat" where
  "count_loop [] nt nm = (nt, nm)"
| "count_loop ((k, v) # ps) nt nm =
     (if strcmp_eq k ''__metadata__'' then
        (case v of
           JSON_OBJECT m \<Rightarrow> count_loop ps nt (length m)
         | _ \<Rightarrow> count_loop ps nt nm)
      else count_loop ps (nt + 1) nm)"

text \<open>
  The inner loop over the pairs of \<open>__metadata__\<close>; \<open>meta_idx\<close> is the length of the
  entries stored so far, and \<open>nm\<close> is \<open>n_metadata\<close>, the number allocated.
\<close>

fun metadata_loop ::
  "(string \<times> json_value) list \<Rightarrow> nat \<Rightarrow> csafetensors_metadata list \<Rightarrow> csafetensors_metadata list" where
  "metadata_loop [] nm md = md"
| "metadata_loop ((mk, mv) # ps) nm md =
     (if length md < nm then
        (case mv of
           JSON_STRING v \<Rightarrow>
             metadata_loop ps nm
               (md @ [\<lparr>meta_key = strncpy_zeroed (CSAFETENSORS_MAX_STRING_LEN - 1) mk,
                        meta_value = strncpy_zeroed (CSAFETENSORS_MAX_STRING_LEN - 1) v\<rparr>])
         | _ \<Rightarrow> metadata_loop ps nm md)
      else md)"

text \<open>
  The main loop; \<open>tensor_idx\<close> is the length of \<open>ts\<close>.  The two \<open>calloc\<close> calls
  before it are taken to succeed.
\<close>

fun header_loop ::
  "(c_double \<Rightarrow> size_t) \<Rightarrow> (string \<times> json_value) list \<Rightarrow> nat \<Rightarrow> nat \<Rightarrow>
   csafetensors_tensor list \<Rightarrow> csafetensors_metadata list \<Rightarrow>
   message + (csafetensors_tensor list \<times> csafetensors_metadata list)" where
  "header_loop oor [] nt nm ts md = Inr (ts, md)"
| "header_loop oor ((k, v) # ps) nt nm ts md =
     (if strcmp_eq k ''__metadata__'' then
        (case v of
           JSON_OBJECT m \<Rightarrow> header_loop oor ps nt nm ts (metadata_loop m nm md)
         | _ \<Rightarrow> header_loop oor ps nt nm ts md)
      else if nt \<le> length ts then header_loop oor ps nt nm ts md
      else
        (case parse_tensor oor k v of
           Inl e \<Rightarrow> Inl e
         | Inr t \<Rightarrow> header_loop oor ps nt nm (ts @ [t]) md))"

definition parse_safetensors_header ::
  "(c_double \<Rightarrow> size_t) \<Rightarrow> string \<Rightarrow> csafetensors \<Rightarrow> bool \<times> csafetensors" where
  "parse_safetensors_header oor data st =
     (let size = (of_nat (length data) :: size_t) in
      if size < 16 then (False, st\<lparr>error_msg := Data_too_short\<rparr>)
      else
        let hs = read_u64_le data in
        if hs < 2 then (False, st\<lparr>error_msg := Header_size_too_small\<rparr>)
        else if CSAFETENSORS_MAX_JSON_SIZE < hs
        then (False, st\<lparr>error_msg := Header_size_exceeds_limit\<rparr>)
        else if size < 8 + hs
        then (False, st\<lparr>error_msg := Header_size_exceeds_data_size\<rparr>)
        else
          let st1 = st\<lparr>header_size := hs\<rparr> in
          case json_parse_value (take (unat hs) (drop 8 data)) of
            Inl e \<Rightarrow> (False, st1\<lparr>error_msg := JSON_parse_error e\<rparr>)
          | Inr (root_val, _) \<Rightarrow>
              (case root_val of
                 JSON_OBJECT pairs \<Rightarrow>
                   (case header_loop oor pairs (fst (count_loop pairs 0 0))
                           (snd (count_loop pairs 0 0)) [] [] of
                      Inl m \<Rightarrow> (False, st1\<lparr>error_msg := m\<rparr>)
                    | Inr (ts, md) \<Rightarrow> (True, st1\<lparr>tensors := ts, metadata := md\<rparr>))
               | _ \<Rightarrow> (False, st1\<lparr>error_msg := Root_JSON_must_be_an_object\<rparr>)))"

section \<open>Container loader\<close>

text \<open>
  The buffer is given by its address \<open>data_ptr\<close> and its bytes \<open>data\<close>; \<open>size\<close> is
  the number of bytes.  \<open>st\<close> is the structure the caller passes in, returned with
  the status.  \<open>malloc_result\<close> is the address \<open>malloc(data_size)\<close> returns for the
  payload copy, \<open>NULL\<close> when it fails.
\<close>

definition csafetensors_load_from_memory ::
  "(c_double \<Rightarrow> size_t) \<Rightarrow> pointer \<Rightarrow> pointer \<Rightarrow> string \<Rightarrow> csafetensors \<Rightarrow>
   csafetensors_error \<times> csafetensors" where
  "csafetensors_load_from_memory oor malloc_result data_ptr data st =
     (let size = (of_nat (length data) :: size_t) in
      if data_ptr = NULL \<or> size < 16 then (CSAFETENSORS_ERROR_INVALID_ARGUMENT, st)
      else
        case parse_safetensors_header oor data csafetensors_init of
          (False, st1) \<Rightarrow> (CSAFETENSORS_ERROR_JSON_PARSE, st1)
        | (True, st1) \<Rightarrow>
            let data_offset = 8 + header_size st1;
                data_size = size - data_offset
            in
            if malloc_result = NULL \<and> 0 < data_size
            then (CSAFETENSORS_ERROR_MEMORY_ALLOCATION,
                  csafetensors_init\<lparr>error_msg := Memory_allocation_failed\<rparr>)
            else (CSAFETENSORS_SUCCESS,
                  st1\<lparr>storage := malloc_result,
                      storage_content := take (unat data_size) (drop (unat data_offset) data),
                      storage_size := data_size,
                      mmaped := False\<rparr>))"

definition csafetensors_mmap_from_memory ::
  "(c_double \<Rightarrow> size_t) \<Rightarrow> pointer \<Rightarrow> string \<Rightarrow> csafetensors \<Rightarrow>
   csafetensors_error \<times> csafetensors" where
  "csafetensors_mmap_from_memory oor data_ptr data st =
     (let size = (of_nat (length data) :: size_t) in
      if data_ptr = NULL \<or> size < 16 then (CSAFETENSORS_ERROR_INVALID_ARGUMENT, st)
      else
        case parse_safetensors_header oor data csafetensors_init of
          (False, st1) \<Rightarrow> (CSAFETENSORS_ERROR_JSON_PARSE, st1)
        | (True, st1) \<Rightarrow>
            (CSAFETENSORS_SUCCESS,
             st1\<lparr>mmaped := True,
                 mmap_addr := data_ptr,
                 mmap_size := size,
                 databuffer_addr := data_ptr + 8 + header_size st1,
                 databuffer_size := size - 8 - header_size st1\<rparr>))"

section \<open>Accessors\<close>

text \<open>A returned pointer to an array element is \<open>Some\<close> of the element, \<open>NULL\<close> is \<open>None\<close>.\<close>

definition csafetensors_get_tensor :: "csafetensors \<Rightarrow> string \<Rightarrow> csafetensors_tensor option" where
  "csafetensors_get_tensor st nm = find (\<lambda>t. strcmp_eq (name t) nm) (tensors st)"

definition csafetensors_get_tensor_by_index :: "csafetensors \<Rightarrow> size_t \<Rightarrow> csafetensors_tensor option" where
  "csafetensors_get_tensor_by_index st i =
     (if n_tensors st \<le> unat i then None else Some (tensors st ! unat i))"

definition csafetensors_get_tensor_data :: "csafetensors \<Rightarrow> csafetensors_tensor \<Rightarrow> pointer" where
  "csafetensors_get_tensor_data st tensor =
     (let base = (if mmaped st then databuffer_addr st else storage st);
          max_size = (if mmaped st then databuffer_size st else storage_size st)
      in if base = NULL then NULL
         else if max_size < data_offset_begin tensor then NULL
         else base + data_offset_begin tensor)"

definition csafetensors_get_metadata :: "csafetensors \<Rightarrow> string \<Rightarrow> string option" where
  "csafetensors_get_metadata st k =
     map_option meta_value (find (\<lambda>m. strcmp_eq (meta_key m) k) (metadata st))"

fun csafetensors_dtype_size :: "csafetensors_dtype \<Rightarrow> size_t" where
  "csafetensors_dtype_size CSAFETENSORS_DTYPE_BOOL = 1"
| "csafetensors_dtype_size CSAFETENSORS_DTYPE_UINT8 = 1"
| "csafetensors_dtype_size CSAFETENSORS_DTYPE_INT8 = 1"
| "csafetensors_dtype_size CSAFETENSORS_DTYPE_UINT16 = 2"
| "csafetensors_dtype_size CSAFETENSORS_DTYPE_INT16 = 2"
| "csafetensors_dtype_size CSAFETENSORS_DTYPE_FLOAT16 = 2"
| "csafetensors_dtype_size CSAFETENSORS_DTYPE_BFLOAT16 = 2"
| "csafetensors_dtype_size CSAFETENSORS_DTYPE_UINT32 = 4"
| "csafetensors_dtype_size CSAFETENSORS_DTYPE_INT32 = 4"
| "csafetensors_dtype_size CSAFETENSORS_DTYPE_FLOAT32 = 4"
| "csafetensors_dtype_size CSAFETENSORS_DTYPE_UINT64 = 8"
| "csafetensors_dtype_size CSAFETENSORS_DTYPE_INT64 = 8"
| "csafetensors_dtype_size CSAFETENSORS_DTYPE_FLOAT64 = 8"

text \<open>The loop of \<open>csafetensors_shape_size\<close>, from the product so far.\<close>

fun shape_size_loop :: "size_t \<Rightarrow> size_t list \<Rightarrow> size_t" where
  "shape_size_loop sz [] = sz"
| "shape_size_loop sz (d # ds) = (if d = 0 then 0 else shape_size_loop (sz * d) ds)"

definition csafetensors_shape_size :: "csafetensors_tensor \<Rightarrow> size_t" where
  "csafetensors_shape_size tensor =
     (if n_dims tensor = 0 then 1 else shape_size_loop 1 (shape tensor))"

text \<open>
  The loop of \<open>csafetensors_validate\<close> over the tensors not yet visited: \<open>None\<close> when
  it runs to the end, else the message of the \<open>return false\<close> it takes.
\<close>

fun validate_loop :: "size_t \<Rightarrow> csafetensors_tensor list \<Rightarrow> message option" where
  "validate_loop data_size [] = None"
| "validate_loop data_size (t # ts) =
     (if data_offset_end t < data_offset_begin t
      then Some (Begin_offset_gt_end_offset (name t))
      else
        let tensor_size = csafetensors_dtype_size (dtype t) * csafetensors_shape_size t in
        if tensor_size = 0 then validate_loop data_size ts
        else if data_size < data_offset_end t
        then Some (Data_offset_exceeds_buffer_size (name t))
        else
          let stored_size = data_offset_end t - data_offset_begin t in
          if tensor_size \<noteq> stored_size
          then Some (Size_mismatch (name t) tensor_size stored_size)
          else validate_loop data_size ts)"

definition csafetensors_validate :: "csafetensors \<Rightarrow> bool \<times> csafetensors" where
  "csafetensors_validate st =
     (let data_size = (if mmaped st then databuffer_size st else storage_size st) in
      case validate_loop data_size (tensors st) of
        None \<Rightarrow> (True, st)
      | Some m \<Rightarrow> (False, st\<lparr>error_msg := m\<rparr>))"

definition csafetensors_get_error :: "csafetensors \<Rightarrow> message" where
  "csafetensors_get_error st = error_msg st"

section \<open>Notions of the specification\<close>

text \<open>The payload view of a loaded object: its base address and its length.\<close>

definition payload_base :: "csafetensors \<Rightarrow> pointer" where
  "payload_base st = (if mmaped st then databuffer_addr st else storage st)"

definition payload_len :: "csafetensors \<Rightarrow> size_t" where
  "payload_len st = (if mmaped st then databuffer_size st else storage_size st)"

text \<open>
  The derived properties of a descriptor as the specification words them, over the
  unbounded naturals: a tensor is empty when some dimension is 0; the element count is
  the product of the dimensions (1 for a scalar); the byte size is the element count
  times the element size.
\<close>

definition is_empty_tensor :: "csafetensors_tensor \<Rightarrow> bool" where
  "is_empty_tensor t = (0 \<in> set (shape t))"

definition element_count :: "csafetensors_tensor \<Rightarrow> nat" where
  "element_count t = prod_list (map unat (shape t))"

text \<open>
  The element size of each dtype as section 3 of the specification lists it:
  \<open>BOOL, U8, I8, U16, I16, F16, BF16, U32, I32, F32, F64, U64, I64\<close> have
  1, 1, 1, 2, 2, 2, 2, 4, 4, 4, 8, 8, 8 bytes.
\<close>

fun spec_dtype_size :: "csafetensors_dtype \<Rightarrow> nat" where
  "spec_dtype_size CSAFETENSORS_DTYPE_BOOL = 1"
| "spec_dtype_size CSAFETENSORS_DTYPE_UINT8 = 1"
| "spec_dtype_size CSAFETENSORS_DTYPE_INT8 = 1"
| "spec_dtype_size CSAFETENSORS_DTYPE_UINT16 = 2"
| "spec_dtype_size CSAFETENSORS_DTYPE_INT16 = 2"
| "spec_dtype_size CSAFETENSORS_DTYPE_FLOAT16 = 2"
| "spec_dtype_size CSAFETENSORS_DTYPE_BFLOAT16 = 2"
| "spec_dtype_size CSAFETENSORS_DTYPE_UINT32 = 4"
| "spec_dtype_size CSAFETENSORS_DTYPE_INT32 = 4"
| "spec_dtype_size CSAFETENSORS_DTYPE_FLOAT32 = 4"
| "spec_dtype_size CSAFETENSORS_DTYPE_FLOAT64 = 8"
| "spec_dtype_size CSAFETENSORS_DTYPE_UINT64 = 8"
| "spec_dtype_size CSAFETENSORS_DTYPE_INT64 = 8"

definition byte_size :: "csafetensors_tensor \<Rightarrow> nat" where
  "byte_size t = element_count t * spec_dtype_size (dtype t)"

text \<open>Invariant 6 of the specification for one descriptor and a payload length.\<close>

definition offsets_ok :: "size_t \<Rightarrow> csafetensors_tensor \<Rightarrow> bool" where
  "offsets_ok len t =
     (is_empty_tensor t \<or>
      (data_offset_begin t \<le> data_offset_end t \<and> data_offset_end t \<le> len \<and>
       unat (data_offset_end t - data_offset_begin t) = byte_size t))"

text \<open>What one pass of the validation loop checks on a descriptor.\<close>

definition tensor_size :: "csafetensors_tensor \<Rightarrow> size_t" where
  "tensor_size t = csafetensors_dtype_size (dtype t) * csafetensors_shape_size t"

definition loop_check :: "size_t \<Rightarrow> csafetensors_tensor \<Rightarrow> bool" where
  "loop_check len t =
     (data_offset_begin t \<le> data_offset_end t \<and>
      (tensor_size t = 0 \<or>
       (data_offset_end t \<le> len \<and>
        tensor_size t = data_offset_end t - data_offset_begin t)))"

text \<open>
  A descriptor as \<open>parse_tensor\<close> leaves it: both offsets are 0 when some dimension
  is 0.
\<close>

definition parsed_tensor :: "csafetensors_tensor \<Rightarrow> bool" where
  "parsed_tensor t = (\<not> is_empty_tensor t \<or> (data_offset_begin t = 0 \<and> data_offset_end t = 0))"

text \<open>A structure one of the two in-memory loaders has returned with success.\<close>

definition loaded :: "csafetensors \<Rightarrow> bool" where
  "loaded st =
     (\<exists>oor mres ptr data st0.
        csafetensors_load_from_memory oor mres ptr data st0 = (CSAFETENSORS_SUCCESS, st) \<or>
        csafetensors_mmap_from_memory oor ptr data st0 = (CSAFETENSORS_SUCCESS, st))"


text \<open>A half bit pattern encodes a finite value when its exponent field is not all ones.\<close>

definition f16_is_finite :: "u16 \<Rightarrow> bool" where
  "f16_is_finite x = (x AND 0x7c00 \<noteq> 0x7c00)"

text \<open>
  No object inside a JSON value, at any depth, holds two keys that are equal as C
  strings.
\<close>

fun keys_distinct :: "json_value \<Rightarrow> bool" where
  "keys_distinct (JSON_ARRAY items) = (\<forall>v \<in> set items. keys_distinct v)"
| "keys_distinct (JSON_OBJECT pairs) =
     (distinct (map (\<lambda>p. c_str (fst p)) pairs) \<and> (\<forall>p \<in> set pairs. keys_distinct (snd p)))"
| "keys_distinct _ = True"

text \<open>
  A stored string shorter than its buffer allows: such a string is the whole C string
  it was copied from.
\<close>

definition untruncated :: "string \<Rightarrow> bool" where
  "untruncated s = (length s < CSAFETENSORS_MAX_STRING_LEN - 1)"


section \<open>Example files\<close>

definition b5_header :: string where
  \<open>b5_header = ''{"test":{"dtype":"F32","shape":[4],"data_offsets":[0,16]}}''\<close>

definition b5_file :: string where
  "b5_file = [CHR 0x3A, CHR 0x00, CHR 0x00, CHR 0x00, CHR 0x00, CHR 0x00, CHR 0x00, CHR 0x00]
     @ b5_header @ replicate 8 (CHR 0x00)"

definition wrap0_header :: string where
  \<open>wrap0_header = ''{"t":{"dtype":"U8","shape":[4294967296,4294967296],"data_offsets":[0,100]}}''\<close>

definition wrap0_file :: string where
  "wrap0_file = [CHR 0x4B, CHR 0x00, CHR 0x00, CHR 0x00, CHR 0x00, CHR 0x00, CHR 0x00, CHR 0x00]
     @ wrap0_header"

definition wrap1_header :: string where
  \<open>wrap1_header = ''{"t":{"dtype":"U8","shape":[274177,67280421310721],"data_offsets":[0,1]}}''\<close>

definition wrap1_file :: string where
  "wrap1_file = [CHR 0x49, CHR 0x00, CHR 0x00, CHR 0x00, CHR 0x00, CHR 0x00, CHR 0x00, CHR 0x00]
     @ wrap1_header @ replicate 1 (CHR 0x00)"

definition far_header :: string where
  \<open>far_header = ''{"t":{"dtype":"U8","shape":[1],"data_offsets":[5,6]}}''\<close>

definition far_file :: string where
  "far_file = [CHR 0x35, CHR 0x00, CHR 0x00, CHR 0x00, CHR 0x00, CHR 0x00, CHR 0x00, CHR 0x00]
     @ far_header"


definition frac_header :: string where
  \<open>frac_header = ''{"t":{"dtype":"U8","shape":[2.5],"data_offsets":[0,2]}}''\<close>

definition frac_file :: string where
  "frac_file = [CHR 0x37, CHR 0x00, CHR 0x00, CHR 0x00, CHR 0x00, CHR 0x00, CHR 0x00, CHR 0x00]
     @ frac_header @ replicate 2 (CHR 0x00)"

definition neg_header :: string where
  \<open>neg_header = ''{"t":{"dtype":"U8","shape":[-0.5]}}''\<close>

definition neg_file :: string where
  "neg_file = [CHR 0x23, CHR 0x00, CHR 0x00, CHR 0x00, CHR 0x00, CHR 0x00, CHR 0x00, CHR 0x00]
     @ neg_header"

definition s4_header :: string where
  \<open>s4_header = ''{"e":{"dtype":"F32","shape":[0,10]}}''\<close>

definition s4_file :: string where
  "s4_file = [CHR 0x24, CHR 0x00, CHR 0x00, CHR 0x00, CHR 0x00, CHR 0x00, CHR 0x00, CHR 0x00]
     @ s4_header"

definition b4_header :: string where
  \<open>b4_header = ''{"e":{"dtype":"F32","shape":[0,10],"data_offsets":[0,0]}}''\<close>

definition b4_file :: string where
  "b4_file = [CHR 0x39, CHR 0x00, CHR 0x00, CHR 0x00, CHR 0x00, CHR 0x00, CHR 0x00, CHR 0x00]
     @ b4_header"

definition b2_file :: string where
  "b2_file = [CHR 0xFF, CHR 0xFF, CHR 0xFF, CHR 0xFF, CHR 0xFF, CHR 0xFF, CHR 0xFF, CHR 0xFF,
              CHR 0x7B, CHR 0x7D, CHR 0x20, CHR 0x20, CHR 0x20, CHR 0x20, CHR 0x20, CHR 0x20]"

definition b1_file :: string where
  "b1_file = [CHR 0x02, CHR 0x00, CHR 0x00, CHR 0x00, CHR 0x00, CHR 0x00, CHR 0x00, CHR 0x00,
              CHR 0x7B, CHR 0x7D, CHR 0x20, CHR 0x20, CHR 0x20, CHR 0x20, CHR 0x20]"

text \<open>
  A file with two tensor names of 5001 bytes each that differ in their last byte only.
  The header is 10105 = 0x2779 bytes long.
\<close>

definition long_prefix :: string where
  "long_prefix = replicate 5000 (CHR ''a'')"

definition long_name_x :: string where
  "long_name_x = long_prefix @ ''x''"

definition long_name_y :: string where
  "long_name_y = long_prefix @ ''y''"

definition long_header :: string where
  \<open>long_header =
     ''{"'' @ long_name_x @ ''":{"dtype":"U8","shape":[1],"data_offsets":[0,1]},"''
       @ long_name_y @ ''":{"dtype":"U8","shape":[1],"data_offsets":[1,2]}}''\<close>

definition long_file :: string where
  "long_file = [CHR 0x79, CHR 0x27, CHR 0x00, CHR 0x00, CHR 0x00, CHR 0x00, CHR 0x00, CHR 0x00]
     @ long_header @ [CHR 0x01, CHR 0x02]"

text \<open>
  A file whose one metadata entry has a key of 5000 bytes \<open>k\<close> and a value of 5000
  bytes \<open>v\<close>.  The header is 10076 = 0x275C bytes long.
\<close>

definition long_key :: string where
  "long_key = replicate 5000 (CHR ''k'')"

definition long_value :: string where
  "long_value = replicate 5000 (CHR ''v'')"

definition longmeta_header :: string where
  \<open>longmeta_header =
     ''{"__metadata__":{"'' @ long_key @ ''":"'' @ long_value
       @ ''"},"t":{"dtype":"U8","shape":[1],"data_offsets":[0,1]}}''\<close>

definition longmeta_file :: string where
  "longmeta_file = [CHR 0x5C, CHR 0x27, CHR 0x00, CHR 0x00, CHR 0x00, CHR 0x00, CHR 0x00, CHR 0x00]
     @ longmeta_header @ [CHR 0x07]"

text \<open>A file with one metadata entry and one tensor; the header is 78 = 0x4E bytes long.\<close>

definition meta_header :: string where
  \<open>meta_header =
     ''{"__metadata__":{"k":"v"},"t":{"dtype":"U8","shape":[1],"data_offsets":[0,1]}}''\<close>

definition meta_file :: string where
  "meta_file = [CHR 0x4E, CHR 0x00, CHR 0x00, CHR 0x00, CHR 0x00, CHR 0x00, CHR 0x00, CHR 0x00]
     @ meta_header @ [CHR 0x07]"

text \<open>The message \<open>parse_safetensors_header\<close> leaves when it rejects the header size.\<close>

definition header_size_message :: "size_t \<Rightarrow> message" where
  "header_size_message hs =
     (if hs < 2 then Header_size_too_small
      else if CSAFETENSORS_MAX_JSON_SIZE < hs then Header_size_exceeds_limit
      else Header_size_exceeds_data_size)"


lemma ilog2_bounds_ge1:
  fixes q :: rat
  assumes "1 \<le> q"
  shows "2 powi (ilog2 q) \<le> q \<and> q < 2 powi (ilog2 q + 1)"
proof -
  define n where "n = nat \<lfloor>q\<rfloor>"
  define L where "L = floorlog 2 n"
  have fl: "1 \<le> \<lfloor>q\<rfloor>" using assms by (simp add: le_floor_iff)
  then have n1: "0 < n" by (simp add: n_def)
  from floorlog_bounds [OF n1, of 2] have b: "2 ^ (L - 1) \<le> n" "n < 2 ^ L"
    by (simp_all add: L_def)
  have L1: "1 \<le> L" using n1 by (simp add: L_def floorlog_def)
  have il: "ilog2 q = int L - 1" using assms by (simp add: ilog2_def L_def n_def)
  have nq: "(of_nat n :: rat) = of_int \<lfloor>q\<rfloor>" using fl by (simp add: n_def)
  have "(2::rat) powi (int L - 1) = 2 ^ (L - 1)"
    using L1 by (simp add: power_int_def nat_diff_distrib)
  also have "\<dots> = of_nat (2 ^ (L - 1))" by simp
  also have "\<dots> \<le> of_nat n" using b(1) by (simp only: of_nat_le_iff)
  also have "\<dots> \<le> q" unfolding nq by (rule of_int_floor_le)
  finally have lo: "2 powi (ilog2 q) \<le> q" by (simp add: il)
  have "q < of_int \<lfloor>q\<rfloor> + 1" by linarith
  also have "\<dots> = of_nat (n + 1)" using nq by simp
  also have "\<dots> \<le> of_nat (2 ^ L)" using b(2) by (simp only: of_nat_le_iff)
  also have "\<dots> = (2::rat) powi (int L)" by simp
  finally have hi: "q < 2 powi (ilog2 q + 1)" by (simp add: il)
  from lo hi show ?thesis ..
qed

lemma ilog2_bounds_lt1:
  fixes q :: rat
  assumes "0 < q" "q < 1"
  shows "2 powi (ilog2 q) \<le> q \<and> q < 2 powi (ilog2 q + 1)"
proof -
  define b where "b = 1 / q"
  define c where "c = \<lceil>b\<rceil>"
  define n where "n = nat (c - 1)"
  define L where "L = floorlog 2 n"
  have b1: "1 < b" using assms by (simp add: b_def)
  then have c2: "2 \<le> c" unfolding c_def by (simp add: le_ceiling_iff) 
  then have n1: "0 < n" by (simp add: n_def)
  from floorlog_bounds [OF n1, of 2] have bd: "2 ^ (L - 1) \<le> n" "n < 2 ^ L"
    by (simp_all add: L_def)
  have L1: "1 \<le> L" using n1 by (simp add: L_def floorlog_def)
  have il: "ilog2 q = - int L" using assms by (simp add: ilog2_def L_def n_def c_def b_def)
  have nc: "(of_nat n :: rat) = of_int c - 1" using c2 by (simp add: n_def)
  have qb: "q = 1 / b" using assms by (simp add: b_def)
  have "b \<le> of_int c" unfolding c_def by (rule le_of_int_ceiling)
  also have "\<dots> = of_nat (n + 1)" using nc by simp
  also have "\<dots> \<le> of_nat (2 ^ L)" using bd(2) by (simp only: of_nat_le_iff)
  finally have "b \<le> 2 ^ L" by simp
  then have "1 / 2 ^ L \<le> 1 / b" using b1 by (simp add: frac_le)
  have e1: "(2::rat) powi (ilog2 q) = 1 / 2 ^ L"
    by (simp add: il power_int_minus_divide)
  from \<open>1 / 2 ^ L \<le> 1 / b\<close> have lo: "2 powi (ilog2 q) \<le> q"
    using e1 qb by simp
  have "(of_nat (2 ^ (L - 1)) :: rat) \<le> of_nat n" using bd(1) by (simp only: of_nat_le_iff)
  also have "\<dots> = of_int c - 1" by (rule nc)
  also have "\<dots> < b" unfolding c_def using ceiling_correct [of b] by linarith
  finally have "2 ^ (L - 1) < b" by simp
  then have "1 / b < 1 / 2 ^ (L - 1)" by (simp add: frac_less2)
  moreover have "(2::rat) powi (ilog2 q + 1) = 1 / 2 ^ (L - 1)"
  proof -
    have "ilog2 q + 1 = - int (L - 1)" using L1 il by simp
    then show ?thesis by (simp only: power_int_minus_divide power_int_of_nat)
  qed
  ultimately have hi: "q < 2 powi (ilog2 q + 1)" using qb by simp
  from lo hi show ?thesis ..
qed

lemma ilog2_bounds:
  fixes q :: rat
  assumes "0 < q"
  shows "2 powi (ilog2 q) \<le> q" "q < 2 powi (ilog2 q + 1)"
  using ilog2_bounds_ge1 [of q] ilog2_bounds_lt1 [of q] assms
  by (cases "1 \<le> q"; simp)+

lemma round_half_even_of_int: "round_half_even (of_int j) = j"
  by (simp add: round_half_even_def)

lemma round_ieee_exact:
  fixes m k p emin emax :: int
  assumes m: "\<bar>m\<bar> < 2 ^ nat p" and p: "0 < p"
    and k1: "emin - (p - 1) \<le> k" and k2: "k \<le> emax + 1 - p"
  shows "round_ieee p emin emax (of_int m * 2 powi k) = Finite (of_int m * 2 powi k)"
proof (cases "m = 0")
  case True
  then show ?thesis by (simp add: round_ieee_def)
next
  case False
  define q where "q = (of_int m :: rat) * 2 powi k"
  define a where "a = \<bar>q\<bar>"
  have pk: "0 < (2::rat) powi k" by simp
  have a_eq: "a = of_int \<bar>m\<bar> * 2 powi k"
    by (simp add: a_def q_def abs_mult power_int_abs)
  have q_ne: "q \<noteq> 0" using False by (simp add: q_def)
  have a_pos: "0 < a" using q_ne by (simp add: a_def)
  have "(of_int \<bar>m\<bar> :: rat) < of_int (2 ^ nat p)" using m by (simp only: of_int_less_iff)
  then have "(of_int \<bar>m\<bar> :: rat) < 2 powi p" using p by (simp add: power_int_def)
  then have "of_int \<bar>m\<bar> * 2 powi k < (2::rat) powi p * 2 powi k"
    using pk by (simp only: mult_less_cancel_right_pos)
  then have a_lt: "a < 2 powi (p + k)" by (simp add: a_eq power_int_add)
  have il: "ilog2 a < p + k"
  proof (rule ccontr)
    assume "\<not> ilog2 a < p + k"
    then have "(2::rat) powi (p + k) \<le> 2 powi (ilog2 a)"
      by (intro power_int_increasing) simp_all
    with ilog2_bounds(1) [OF a_pos] a_lt show False by simp
  qed
  define e where "e = max (ilog2 a) emin"
  define ulp where "ulp = (2::rat) powi (e - (p - 1))"
  define d where "d = nat (k - (e - (p - 1)))"
  have ek: "e - (p - 1) \<le> k" using il k1 by (simp add: e_def)
  have ulp_pos: "0 < ulp" by (simp add: ulp_def)
  have kd: "k = int d + (e - (p - 1))" using ek by (simp add: d_def)
  have "(2::rat) powi (int d + (e - (p - 1))) = 2 powi (int d) * 2 powi (e - (p - 1))"
    by (rule power_int_add) simp
  with kd have "(2::rat) powi k = 2 powi (int d) * 2 powi (e - (p - 1))"
    by simp
  then have pk_eq: "(2::rat) powi k = 2 ^ d * ulp" by (simp add: ulp_def)
  have quot: "a / ulp = of_int (\<bar>m\<bar> * 2 ^ d)"
    using ulp_pos by (simp add: a_eq pk_eq)
  have r_eq: "of_int (round_half_even (a / ulp)) * ulp = a"
    unfolding quot round_half_even_of_int using ulp_pos by (simp add: a_eq pk_eq)
  have "(2::rat) powi (p + k) \<le> 2 powi (emax + 1)"
    using k2 by (intro power_int_increasing) simp_all
  with a_lt have no_ovf: "\<not> 2 powi (emax + 1) \<le> a" by simp
  have "round_ieee p emin emax q = Finite (if q < 0 then - a else a)"
    using q_ne no_ovf r_eq
    by (simp add: round_ieee_def Let_def a_def [symmetric] e_def [symmetric] ulp_def [symmetric])
  also have "(if q < 0 then - a else a) = q" by (simp add: a_def)
  finally show ?thesis by (simp add: q_def)
qed

lemma round_binary64_exact:
  fixes m k :: int
  assumes "\<bar>m\<bar> < 2 ^ 53" "- 1074 \<le> k" "k \<le> 971"
  shows "round_binary64 (of_int m * 2 powi k) = Finite (of_int m * 2 powi k)"
  unfolding round_binary64_def
  using assms by (intro round_ieee_exact) simp_all

lemma round_binary64_of_int:
  fixes m :: int
  assumes "\<bar>m\<bar> < 2 ^ 53"
  shows "round_binary64 (of_int m) = Finite (of_int m)"
  using round_binary64_exact [of m 0] assms by simp

lemma round_binary64_of_nat:
  assumes "n < 2 ^ 53"
  shows "round_binary64 (of_nat n) = Finite (of_nat n)"
  using round_binary64_of_int [of "int n"] assms by simp


lemma round_binary64_numeral:
  "(numeral w :: int) < 2 ^ 53 \<Longrightarrow> round_binary64 (numeral w) = Finite (numeral w)"
  using round_binary64_of_int [of "numeral w"] by simp

lemma round_binary64_0: "round_binary64 0 = Finite 0"
  by (simp add: round_binary64_def round_ieee_def)

lemma round_binary64_1: "round_binary64 1 = Finite 1"
  using round_binary64_of_int [of 1] by simp

lemmas strtod_eval =
  strtod_def decimal_value_def is_digit_def digits_value_def
  round_binary64_numeral round_binary64_0 round_binary64_1

lemmas json_eval =
  json_parse_value.simps json_parse_array.simps json_array_loop.simps
  json_parse_object.simps json_object_loop.simps json_parse_string_def
  json_parse_number_def number_sign_def number_int_def number_frac_def number_exp_def
  json_match_def has_key_def strcmp_eq_def c_str_def Let_def

lemmas header_eval =
  parse_safetensors_header_def read_u64_le_def CSAFETENSORS_MAX_JSON_SIZE_def
  parse_tensor_def parse_dtype_string_def CSAFETENSORS_MAX_DIM_def
  CSAFETENSORS_MAX_STRING_LEN_def strncpy_zeroed_def double_to_size_t_def


lemmas loader_eval =
  csafetensors_load_from_memory_def csafetensors_mmap_from_memory_def
  csafetensors_init_def NULL_def

lemmas validate_eval =
  csafetensors_validate_def csafetensors_shape_size_def n_dims_def


section \<open>Element count and byte size in machine arithmetic\<close>

lemma shape_size_loop_eq:
  "shape_size_loop acc ds = (if 0 \<in> set ds then 0 else acc * of_nat (prod_list (map unat ds)))"
proof (induction ds arbitrary: acc)
  case Nil
  then show ?case by simp
next
  case (Cons d ds)
  show ?case
  proof (cases "d = 0")
    case True
    then show ?thesis by simp
  next
    case False
    then show ?thesis
      by (simp add: Cons.IH mult.assoc)
  qed
qed

lemma prod_list_zero_unat:
  "0 \<in> set ds \<Longrightarrow> prod_list (map unat (ds :: size_t list)) = 0"
  by (induction ds) auto

lemma csafetensors_shape_size_eq:
  "csafetensors_shape_size t = of_nat (element_count t)"
proof (cases "shape t")
  case Nil
  then show ?thesis
    by (simp add: csafetensors_shape_size_def n_dims_def element_count_def)
next
  case (Cons d ds)
  then show ?thesis
    using prod_list_zero_unat [of "shape t"]
    by (auto simp: csafetensors_shape_size_def n_dims_def element_count_def shape_size_loop_eq
             simp del: prod_list.Cons)
qed

lemma csafetensors_dtype_size_spec:
  "csafetensors_dtype_size d = of_nat (spec_dtype_size d)"
  "unat (csafetensors_dtype_size d) = spec_dtype_size d"
  by (cases d; simp)+

lemma tensor_size_eq: "tensor_size t = of_nat (byte_size t)"
  by (simp add: tensor_size_def byte_size_def csafetensors_shape_size_eq
        csafetensors_dtype_size_spec(1) mult.commute)

lemma unat_tensor_size: "unat (tensor_size t) = byte_size t mod 2 ^ 64"
  by (simp add: tensor_size_eq unat_of_nat)

lemma dtype_size_pos: "0 < spec_dtype_size d"
  by (cases d) simp_all

lemma element_count_pos: "\<not> is_empty_tensor t \<Longrightarrow> 0 < element_count t"
proof -
  have "0 \<notin> set ds \<Longrightarrow> 0 < prod_list (map unat ds)" for ds :: "size_t list"
    by (induction ds) (auto simp: unat_gt_0)
  then show "\<not> is_empty_tensor t \<Longrightarrow> 0 < element_count t"
    by (simp add: is_empty_tensor_def element_count_def)
qed

lemma element_count_empty: "is_empty_tensor t \<Longrightarrow> element_count t = 0"
  using prod_list_zero_unat [of "shape t"]
  by (simp add: is_empty_tensor_def element_count_def)

lemma byte_size_pos: "\<not> is_empty_tensor t \<Longrightarrow> 0 < byte_size t"
  using element_count_pos [of t] dtype_size_pos [of "dtype t"]
  by (simp add: byte_size_def)

section \<open>The validation loop\<close>

lemma validate_loop_None_iff:
  "validate_loop len ts = None \<longleftrightarrow> (\<forall>t\<in>set ts. loop_check len t)"
  by (induction ts)
     (auto simp: loop_check_def tensor_size_def Let_def not_less)

lemma validate_loop_Some:
  "validate_loop len ts = Some m \<Longrightarrow>
   \<exists>ts1 t ts2. ts = ts1 @ t # ts2 \<and> (\<forall>u\<in>set ts1. loop_check len u) \<and> \<not> loop_check len t \<and>
     (m = Begin_offset_gt_end_offset (name t) \<or>
      m = Data_offset_exceeds_buffer_size (name t) \<or>
      m = Size_mismatch (name t) (tensor_size t) (data_offset_end t - data_offset_begin t))"
proof (induction ts)
  case Nil
  then show ?case by simp
next
  case (Cons a ts)
  show ?case
  proof (cases "loop_check len a")
    case True
    with Cons.prems have "validate_loop len ts = Some m"
      by (auto simp: loop_check_def tensor_size_def Let_def not_less split: if_splits)
    from Cons.IH [OF this] obtain ts1 t ts2 where
      h: "ts = ts1 @ t # ts2" "\<forall>u\<in>set ts1. loop_check len u" "\<not> loop_check len t"
         "m = Begin_offset_gt_end_offset (name t) \<or>
          m = Data_offset_exceeds_buffer_size (name t) \<or>
          m = Size_mismatch (name t) (tensor_size t) (data_offset_end t - data_offset_begin t)"
      by blast
    have "a # ts = (a # ts1) @ t # ts2" using h(1) by simp
    moreover have "\<forall>u\<in>set (a # ts1). loop_check len u" using h(2) True by simp
    ultimately show ?thesis using h(3,4) by blast
  next
    case False
    with Cons.prems have
      "m = Begin_offset_gt_end_offset (name a) \<or>
       m = Data_offset_exceeds_buffer_size (name a) \<or>
       m = Size_mismatch (name a) (tensor_size a) (data_offset_end a - data_offset_begin a)"
      by (auto simp: loop_check_def tensor_size_def Let_def not_less split: if_splits)
    moreover have "a # ts = [] @ a # ts" by simp
    ultimately show ?thesis using False by (metis empty_iff list.set(1))
  qed
qed

lemma loop_check_iff_offsets_ok:
  assumes "parsed_tensor t" "byte_size t < 2 ^ 64"
  shows "loop_check len t \<longleftrightarrow> offsets_ok len t"
proof (cases "is_empty_tensor t")
  case True
  with assms(1) have "data_offset_begin t = 0" "data_offset_end t = 0"
    by (simp_all add: parsed_tensor_def)
  moreover have "tensor_size t = 0"
    using element_count_empty [OF True] by (simp add: tensor_size_eq byte_size_def)
  ultimately show ?thesis using True by (simp add: loop_check_def offsets_ok_def)
next
  case False
  have u: "unat (tensor_size t) = byte_size t"
    using assms(2) by (simp add: unat_tensor_size)
  have nz: "tensor_size t \<noteq> 0"
    using byte_size_pos [OF False] u by (metis less_numeral_extra(3) unat_0) 
  have "tensor_size t = data_offset_end t - data_offset_begin t
        \<longleftrightarrow> unat (data_offset_end t - data_offset_begin t) = byte_size t"
    using u by (metis unsigned_word_eqI)
  with False nz show ?thesis by (auto simp: loop_check_def offsets_ok_def)
qed


section \<open>What a successful load establishes\<close>

lemma parse_safetensors_header_True:
  assumes "parse_safetensors_header oor data st = (True, st')"
  obtains pairs rest ts md where
    "json_parse_value (take (unat (read_u64_le data)) (drop 8 data)) = Inr (JSON_OBJECT pairs, rest)"
    "header_loop oor pairs (fst (count_loop pairs 0 0)) (snd (count_loop pairs 0 0)) [] []
       = Inr (ts, md)"
    "st' = st\<lparr>header_size := read_u64_le data, tensors := ts, metadata := md\<rparr>"
    "\<not> (of_nat (length data) :: size_t) < 16"
    "\<not> read_u64_le data < 2"
    "\<not> CSAFETENSORS_MAX_JSON_SIZE < read_u64_le data"
    "\<not> (of_nat (length data) :: size_t) < 8 + read_u64_le data"
  using assms
  by (auto simp: parse_safetensors_header_def Let_def
           split: if_splits sum.splits prod.splits json_value.splits)

lemma load_from_memory_SUCCESS:
  assumes "csafetensors_load_from_memory oor mres ptr data st0 = (CSAFETENSORS_SUCCESS, st)"
  obtains st1 where
    "parse_safetensors_header oor data csafetensors_init = (True, st1)"
    "tensors st = tensors st1" "metadata st = metadata st1" "header_size st = header_size st1"
    "\<not> mmaped st" "storage st = mres"
    "storage_size st = of_nat (length data) - (8 + header_size st1)"
  using assms
  by (auto simp: csafetensors_load_from_memory_def Let_def
           split: if_splits prod.splits bool.splits)

lemma mmap_from_memory_SUCCESS:
  assumes "csafetensors_mmap_from_memory oor ptr data st0 = (CSAFETENSORS_SUCCESS, st)"
  obtains st1 where
    "parse_safetensors_header oor data csafetensors_init = (True, st1)"
    "tensors st = tensors st1" "metadata st = metadata st1" "header_size st = header_size st1"
    "mmaped st" "databuffer_addr st = ptr + 8 + header_size st1"
    "databuffer_size st = of_nat (length data) - 8 - header_size st1"
  using assms
  by (auto simp: csafetensors_mmap_from_memory_def Let_def
           split: if_splits prod.splits bool.splits)

lemma loaded_header:
  assumes "loaded st"
  obtains oor data st1 where
    "parse_safetensors_header oor data csafetensors_init = (True, st1)"
    "tensors st = tensors st1" "metadata st = metadata st1"
proof -
  from assms obtain oor mres ptr data st0 where
    "csafetensors_load_from_memory oor mres ptr data st0 = (CSAFETENSORS_SUCCESS, st) \<or>
     csafetensors_mmap_from_memory oor ptr data st0 = (CSAFETENSORS_SUCCESS, st)"
    unfolding loaded_def by blast
  then show ?thesis
  proof
    assume "csafetensors_load_from_memory oor mres ptr data st0 = (CSAFETENSORS_SUCCESS, st)"
    then show ?thesis by (rule load_from_memory_SUCCESS) (rule that)
  next
    assume "csafetensors_mmap_from_memory oor ptr data st0 = (CSAFETENSORS_SUCCESS, st)"
    then show ?thesis by (rule mmap_from_memory_SUCCESS) (rule that)
  qed
qed

lemma parse_shape_list_ex:
  "list_ex (\<lambda>d. d = 0) shp \<longleftrightarrow> 0 \<in> set shp"
  by (induction shp) auto

lemma parse_tensor_parsed:
  assumes "parse_tensor oor nm obj = Inr t"
  shows "parsed_tensor t"
  using assms
  by (auto simp: parse_tensor_def parsed_tensor_def is_empty_tensor_def Let_def
                 parse_shape_list_ex
           split: if_splits option.splits)

lemma header_loop_metadata_step:
  assumes "strcmp_eq k ''__metadata__''"
  shows "\<exists>md1. header_loop oor ((k, v) # ps) nt nm ts md = header_loop oor ps nt nm ts md1"
  using assms by (cases v) auto

lemma header_loop_parsed:
  assumes "header_loop oor ps nt nm ts md = Inr (ts', md')" "\<forall>t\<in>set ts. parsed_tensor t"
  shows "\<forall>t\<in>set ts'. parsed_tensor t"
  using assms
proof (induction ps arbitrary: ts md)
  case Nil
  then show ?case by simp
next
  case (Cons p ps)
  obtain k v where p: "p = (k, v)" by (cases p)
  show ?case
  proof (cases "strcmp_eq k ''__metadata__''")
    case True
    from header_loop_metadata_step [OF True, of oor v ps nt nm ts md] Cons.prems(1) p
    obtain md1 where "header_loop oor ps nt nm ts md1 = Inr (ts', md')" by auto
    from Cons.IH [OF this Cons.prems(2)] show ?thesis .
  next
    case nm: False
    show ?thesis
    proof (cases "nt \<le> length ts")
      case True
      with nm Cons.prems(1) p have "header_loop oor ps nt nm ts md = Inr (ts', md')" by simp
      from Cons.IH [OF this Cons.prems(2)] show ?thesis .
    next
      case False
      with nm Cons.prems(1) p obtain t where
        pt: "parse_tensor oor k v = Inr t"
        and rest: "header_loop oor ps nt nm (ts @ [t]) md = Inr (ts', md')"
        by (auto split: sum.splits)
      have "\<forall>u\<in>set (ts @ [t]). parsed_tensor u"
        using Cons.prems(2) parse_tensor_parsed [OF pt] by auto
      from Cons.IH [OF rest this] show ?thesis .
    qed
  qed
qed

lemma loaded_parsed:
  assumes "loaded st"
  shows "\<forall>t\<in>set (tensors st). parsed_tensor t"
proof -
  from assms obtain oor data st1 where
    h: "parse_safetensors_header oor data csafetensors_init = (True, st1)"
       "tensors st = tensors st1"
    by (rule loaded_header)
  from h(1) obtain pairs ts md where
    "header_loop oor pairs (fst (count_loop pairs 0 0)) (snd (count_loop pairs 0 0)) [] []
       = Inr (ts, md)"
    "st1 = csafetensors_init\<lparr>header_size := read_u64_le data, tensors := ts, metadata := md\<rparr>"
    by (rule parse_safetensors_header_True)
  then show ?thesis
    using header_loop_parsed [of oor pairs _ _ "[]" "[]" ts md] h(2) by simp
qed


section \<open>The validation pass\<close>

lemma b5_parse:
  "parse_safetensors_header oor b5_file csafetensors_init =
     (True, csafetensors_init\<lparr>header_size := 58,
        tensors := [\<lparr>name = ''test'', dtype = CSAFETENSORS_DTYPE_FLOAT32, shape = [4],
                     data_offset_begin = 0, data_offset_end = 16\<rparr>]\<rparr>)"
  unfolding b5_file_def b5_header_def
  by (simp add: header_eval json_eval strtod_eval csafetensors_init_def)

lemma b5_length: "length b5_file = 74"
  by (simp add: b5_file_def b5_header_def)

lemma b5_load:
  "csafetensors_load_from_memory oor 0x5000 0x1000 b5_file st0 =
     (CSAFETENSORS_SUCCESS,
      csafetensors_init\<lparr>header_size := 58,
        tensors := [\<lparr>name = ''test'', dtype = CSAFETENSORS_DTYPE_FLOAT32, shape = [4],
                     data_offset_begin = 0, data_offset_end = 16\<rparr>],
        storage := 0x5000, storage_content := replicate 8 (CHR 0x00), storage_size := 8\<rparr>)"
  by (simp add: csafetensors_load_from_memory_def b5_parse b5_length NULL_def)
     (simp add: b5_file_def b5_header_def csafetensors_init_def)

lemma wrap0_parse:
  "parse_safetensors_header oor wrap0_file csafetensors_init =
     (True, csafetensors_init\<lparr>header_size := 75,
        tensors := [\<lparr>name = ''t'', dtype = CSAFETENSORS_DTYPE_UINT8,
                     shape = [4294967296, 4294967296],
                     data_offset_begin = 0, data_offset_end = 100\<rparr>]\<rparr>)"
  unfolding wrap0_file_def wrap0_header_def
  by (simp add: header_eval json_eval strtod_eval csafetensors_init_def)

lemma wrap0_length: "length wrap0_file = 83"
  by (simp add: wrap0_file_def wrap0_header_def)

lemma wrap0_load:
  "csafetensors_load_from_memory oor 0x5000 0x1000 wrap0_file st0 =
     (CSAFETENSORS_SUCCESS,
      csafetensors_init\<lparr>header_size := 75,
        tensors := [\<lparr>name = ''t'', dtype = CSAFETENSORS_DTYPE_UINT8,
                     shape = [4294967296, 4294967296],
                     data_offset_begin = 0, data_offset_end = 100\<rparr>],
        storage := 0x5000, storage_content := [], storage_size := 0\<rparr>)"
  by (simp add: csafetensors_load_from_memory_def wrap0_parse wrap0_length NULL_def)
     (simp add: wrap0_file_def wrap0_header_def csafetensors_init_def)

text \<open>
  Where no byte size reaches \<open>2\<^sup>6\<^sup>4\<close>, the validation pass does what the
  specification says: it returns true exactly when every descriptor with no zero
  dimension has \<open>begin \<le> end \<le> payload length\<close> and \<open>end - begin = byte size\<close>, and
  otherwise its message is that of the first descriptor that violates this.
\<close>

lemma validate_iff_offsets_ok_below_wrap:
  assumes "loaded st" and "\<forall>t\<in>set (tensors st). byte_size t < 2 ^ 64"
  shows "(fst (csafetensors_validate st) \<longleftrightarrow>
            (\<forall>t\<in>set (tensors st). offsets_ok (payload_len st) t))
       \<and> (fst (csafetensors_validate st) \<or>
            (\<exists>ts1 t ts2. tensors st = ts1 @ t # ts2
               \<and> (\<forall>u\<in>set ts1. offsets_ok (payload_len st) u)
               \<and> \<not> offsets_ok (payload_len st) t
               \<and> (error_msg (snd (csafetensors_validate st)) = Begin_offset_gt_end_offset (name t)
                  \<or> error_msg (snd (csafetensors_validate st)) = Data_offset_exceeds_buffer_size (name t)
                  \<or> error_msg (snd (csafetensors_validate st)) =
                       Size_mismatch (name t) (tensor_size t)
                         (data_offset_end t - data_offset_begin t))))"
proof -
  let ?len = "payload_len st"
  have eq: "\<And>t. t \<in> set (tensors st) \<Longrightarrow> loop_check ?len t \<longleftrightarrow> offsets_ok ?len t"
    using loaded_parsed [OF assms(1)] assms(2) loop_check_iff_offsets_ok by blast
  have v: "csafetensors_validate st =
      (case validate_loop ?len (tensors st) of
         None \<Rightarrow> (True, st) | Some m \<Rightarrow> (False, st\<lparr>error_msg := m\<rparr>))"
    by (simp add: csafetensors_validate_def payload_len_def)
  have iff: "fst (csafetensors_validate st) \<longleftrightarrow> (\<forall>t\<in>set (tensors st). offsets_ok ?len t)"
  proof -
    have "fst (csafetensors_validate st) \<longleftrightarrow> validate_loop ?len (tensors st) = None"
      unfolding v by (simp split: option.splits)
    also have "\<dots> \<longleftrightarrow> (\<forall>t\<in>set (tensors st). loop_check ?len t)"
      by (rule validate_loop_None_iff)
    also have "\<dots> \<longleftrightarrow> (\<forall>t\<in>set (tensors st). offsets_ok ?len t)"
      using eq by blast
    finally show ?thesis .
  qed
  have first: "\<exists>ts1 t ts2. tensors st = ts1 @ t # ts2
               \<and> (\<forall>u\<in>set ts1. offsets_ok ?len u)
               \<and> \<not> offsets_ok ?len t
               \<and> (error_msg (snd (csafetensors_validate st)) = Begin_offset_gt_end_offset (name t)
                  \<or> error_msg (snd (csafetensors_validate st)) = Data_offset_exceeds_buffer_size (name t)
                  \<or> error_msg (snd (csafetensors_validate st)) =
                       Size_mismatch (name t) (tensor_size t)
                         (data_offset_end t - data_offset_begin t))"
    if nv: "\<not> fst (csafetensors_validate st)"
  proof -
    from nv obtain m where m: "validate_loop ?len (tensors st) = Some m"
      unfolding v by (auto split: option.splits)
    then have em: "error_msg (snd (csafetensors_validate st)) = m"
      unfolding v by simp
    from validate_loop_Some [OF m] obtain ts1 t ts2 where
      h: "tensors st = ts1 @ t # ts2" "\<forall>u\<in>set ts1. loop_check ?len u" "\<not> loop_check ?len t"
         "m = Begin_offset_gt_end_offset (name t) \<or>
          m = Data_offset_exceeds_buffer_size (name t) \<or>
          m = Size_mismatch (name t) (tensor_size t) (data_offset_end t - data_offset_begin t)"
      by blast
    have "\<forall>u\<in>set ts1. offsets_ok ?len u" using h(1,2) eq by auto
    moreover have "\<not> offsets_ok ?len t" using h(1,3) eq by auto
    ultimately show ?thesis using h(1,4) em by blast
  qed
  from iff first show ?thesis by blast
qed

lemma b5_loaded:
  "loaded (snd (csafetensors_load_from_memory (\<lambda>_. 0) 0x5000 0x1000 b5_file csafetensors_init))"
  unfolding loaded_def
  by (intro exI [of _ "\<lambda>_. 0"] exI [of _ "0x5000"] exI [of _ "0x1000"] exI [of _ b5_file]
        exI [of _ csafetensors_init] disjI1) (simp add: b5_load)

lemma wrap0_loaded:
  "loaded (snd (csafetensors_load_from_memory (\<lambda>_. 0) 0x5000 0x1000 wrap0_file csafetensors_init))"
  unfolding loaded_def
  by (intro exI [of _ "\<lambda>_. 0"] exI [of _ "0x5000"] exI [of _ "0x1000"] exI [of _ wrap0_file]
        exI [of _ csafetensors_init] disjI1) (simp add: wrap0_load)

text \<open>
  C1.  The claim fails on the code where the product of the dimensions wraps around to
  0.  The file \<open>wrap0_file\<close> holds one \<open>U8\<close> tensor of shape \<open>[2\<^sup>3\<^sup>2, 2\<^sup>3\<^sup>2]\<close> with
  offsets \<open>[0,100]\<close> and no payload.  It loads; the descriptor has no zero dimension,
  its byte size is \<open>2\<^sup>6\<^sup>4\<close> and its end offset lies beyond the payload; yet
  \<open>csafetensors_shape_size\<close> returns 0, as it is documented to do only for a shape
  that contains 0, and \<open>csafetensors_validate\<close> returns true.
\<close>

theorem validate_true_on_wrapped_shape_size:
  "(let r = csafetensors_load_from_memory (\<lambda>_. 0) 0x5000 0x1000 wrap0_file csafetensors_init;
        d = \<lparr>name = ''t'', dtype = CSAFETENSORS_DTYPE_UINT8, shape = [4294967296, 4294967296],
             data_offset_begin = 0, data_offset_end = 100\<rparr>
    in fst r = CSAFETENSORS_SUCCESS
       \<and> tensors (snd r) = [d]
       \<and> \<not> is_empty_tensor d
       \<and> element_count d = 2 ^ 64
       \<and> byte_size d = 2 ^ 64
       \<and> csafetensors_shape_size d = 0
       \<and> payload_len (snd r) = 0
       \<and> payload_len (snd r) < data_offset_end d
       \<and> \<not> offsets_ok (payload_len (snd r)) d
       \<and> fst (csafetensors_validate (snd r)))"
  by (simp add: wrap0_load Let_def is_empty_tensor_def element_count_def byte_size_def
        offsets_ok_def payload_len_def validate_eval csafetensors_init_def)


section \<open>Wrap-around of the byte size\<close>

lemma wrap1_parse:
  "parse_safetensors_header oor wrap1_file csafetensors_init =
     (True, csafetensors_init\<lparr>header_size := 73,
        tensors := [\<lparr>name = ''t'', dtype = CSAFETENSORS_DTYPE_UINT8,
                     shape = [274177, 67280421310721],
                     data_offset_begin = 0, data_offset_end = 1\<rparr>]\<rparr>)"
  unfolding wrap1_file_def wrap1_header_def
  by (simp add: header_eval json_eval strtod_eval csafetensors_init_def)

lemma wrap1_length: "length wrap1_file = 82"
  by (simp add: wrap1_file_def wrap1_header_def)

lemma wrap1_load:
  "csafetensors_load_from_memory oor 0x5000 0x1000 wrap1_file st0 =
     (CSAFETENSORS_SUCCESS,
      csafetensors_init\<lparr>header_size := 73,
        tensors := [\<lparr>name = ''t'', dtype = CSAFETENSORS_DTYPE_UINT8,
                     shape = [274177, 67280421310721],
                     data_offset_begin = 0, data_offset_end = 1\<rparr>],
        storage := 0x5000, storage_content := [CHR 0x00], storage_size := 1\<rparr>)"
  by (simp add: csafetensors_load_from_memory_def wrap1_parse wrap1_length NULL_def)
     (simp add: wrap1_file_def wrap1_header_def csafetensors_init_def)

lemma validate_iff_wrapped_sizes:
  "fst (csafetensors_validate st) \<longleftrightarrow>
     (\<forall>t\<in>set (tensors st).
        data_offset_begin t \<le> data_offset_end t
        \<and> (byte_size t mod 2 ^ 64 = 0
           \<or> (data_offset_end t \<le> payload_len st
              \<and> unat (data_offset_end t - data_offset_begin t) = byte_size t mod 2 ^ 64)))"
proof -
  have v: "fst (csafetensors_validate st) \<longleftrightarrow> validate_loop (payload_len st) (tensors st) = None"
    by (simp add: csafetensors_validate_def payload_len_def split: option.splits)
  have z: "tensor_size t = 0 \<longleftrightarrow> byte_size t mod 2 ^ 64 = 0" for t
    using unat_tensor_size [of t] by (simp add: unat_eq_0 [symmetric])
  have e: "tensor_size t = data_offset_end t - data_offset_begin t
           \<longleftrightarrow> unat (data_offset_end t - data_offset_begin t) = byte_size t mod 2 ^ 64" for t
    using unat_tensor_size [of t] by (metis unsigned_word_eqI)
  have "loop_check (payload_len st) t \<longleftrightarrow>
        data_offset_begin t \<le> data_offset_end t
        \<and> (byte_size t mod 2 ^ 64 = 0
           \<or> (data_offset_end t \<le> payload_len st
              \<and> unat (data_offset_end t - data_offset_begin t) = byte_size t mod 2 ^ 64))" for t
    unfolding loop_check_def z e by (rule refl)
  then show ?thesis
    unfolding v validate_loop_None_iff by simp
qed

text \<open>
  C10.  \<open>csafetensors_shape_size\<close> returns the product of the dimensions modulo
  \<open>2\<^sup>6\<^sup>4\<close>, and the size \<open>csafetensors_validate\<close> computes for a descriptor,
  \<open>csafetensors_dtype_size(dtype) * csafetensors_shape_size(t)\<close>, is the byte size
  modulo \<open>2\<^sup>6\<^sup>4\<close>.  The validation pass returns true exactly when every descriptor
  has \<open>begin \<le> end\<close> and either that wrapped size is 0, or \<open>end\<close> lies within the
  payload and \<open>end - begin\<close> equals the wrapped size.  For the \<open>U8\<close> tensor of shape
  \<open>[274177, 67280421310721]\<close>, whose element count is \<open>2\<^sup>6\<^sup>4 + 1\<close>, with offsets
  \<open>[0,1]\<close> and a payload of one byte, the load succeeds, the computed size is 1 and
  the validation pass returns true although the byte size exceeds the payload length.
\<close>

theorem byte_size_wraps_modulo_2_64:
  "unat (csafetensors_shape_size t) = element_count t mod 2 ^ 64
   \<and> unat (csafetensors_dtype_size (dtype t) * csafetensors_shape_size t)
       = byte_size t mod 2 ^ 64
   \<and> (fst (csafetensors_validate st) \<longleftrightarrow>
        (\<forall>t\<in>set (tensors st).
           data_offset_begin t \<le> data_offset_end t
           \<and> (byte_size t mod 2 ^ 64 = 0
              \<or> (data_offset_end t \<le> payload_len st
                 \<and> unat (data_offset_end t - data_offset_begin t) = byte_size t mod 2 ^ 64))))
   \<and> (let r = csafetensors_load_from_memory (\<lambda>_. 0) 0x5000 0x1000 wrap1_file csafetensors_init;
           d = hd (tensors (snd r))
       in fst r = CSAFETENSORS_SUCCESS
          \<and> length (tensors (snd r)) = 1
          \<and> shape d = [274177, 67280421310721]
          \<and> element_count d = 2 ^ 64 + 1
          \<and> byte_size d = 2 ^ 64 + 1
          \<and> csafetensors_shape_size d = 1
          \<and> csafetensors_dtype_size (dtype d) * csafetensors_shape_size d = 1
          \<and> payload_len (snd r) = 1
          \<and> unat (payload_len (snd r)) < byte_size d
          \<and> fst (csafetensors_validate (snd r)))"
proof -
  have a: "unat (csafetensors_shape_size t) = element_count t mod 2 ^ 64"
    by (simp add: csafetensors_shape_size_eq unat_of_nat)
  have b: "unat (csafetensors_dtype_size (dtype t) * csafetensors_shape_size t)
       = byte_size t mod 2 ^ 64"
    using unat_tensor_size [of t] by (simp add: tensor_size_def)
  have c: "let r = csafetensors_load_from_memory (\<lambda>_. 0) 0x5000 0x1000 wrap1_file csafetensors_init;
           d = hd (tensors (snd r))
       in fst r = CSAFETENSORS_SUCCESS
          \<and> length (tensors (snd r)) = 1
          \<and> shape d = [274177, 67280421310721]
          \<and> element_count d = 2 ^ 64 + 1
          \<and> byte_size d = 2 ^ 64 + 1
          \<and> csafetensors_shape_size d = 1
          \<and> csafetensors_dtype_size (dtype d) * csafetensors_shape_size d = 1
          \<and> payload_len (snd r) = 1
          \<and> unat (payload_len (snd r)) < byte_size d
          \<and> fst (csafetensors_validate (snd r))"
    by (simp add: wrap1_load Let_def byte_size_def element_count_def
          payload_len_def validate_eval csafetensors_init_def)
  from a b validate_iff_wrapped_sizes [of st] c show ?thesis by blast
qed

text \<open>
  The validation pass on two loaded files: the file of boundary case B5 (an \<open>F32\<close>
  tensor of shape \<open>[4]\<close> with offsets \<open>[0,16]\<close> and a payload of 8 bytes), where the
  end offset lies beyond the payload and the pass returns false; and \<open>wrap1_file\<close>,
  where the wrapped size 1 equals \<open>end - begin\<close> and the pass returns true.
\<close>

theorem byte_size_wraps_modulo_2_64_witness:
  "\<not> fst (csafetensors_validate
        (snd (csafetensors_load_from_memory (\<lambda>_. 0) 0x5000 0x1000 b5_file csafetensors_init)))
   \<and> fst (csafetensors_validate
        (snd (csafetensors_load_from_memory (\<lambda>_. 0) 0x5000 0x1000 wrap1_file csafetensors_init)))"
proof -
  let ?b5 = "snd (csafetensors_load_from_memory (\<lambda>_. 0) 0x5000 0x1000 b5_file csafetensors_init)"
  let ?w1 = "snd (csafetensors_load_from_memory (\<lambda>_. 0) 0x5000 0x1000 wrap1_file csafetensors_init)"
  note B = conjunct1 [OF conjunct2 [OF conjunct2 [OF byte_size_wraps_modulo_2_64 [where st = ?b5]]]]
  note W = conjunct1 [OF conjunct2 [OF conjunct2 [OF byte_size_wraps_modulo_2_64 [where st = ?w1]]]]
  have nb: "\<not> (\<forall>t\<in>set (tensors ?b5).
           data_offset_begin t \<le> data_offset_end t
           \<and> (byte_size t mod 2 ^ 64 = 0
              \<or> (data_offset_end t \<le> payload_len ?b5
                 \<and> unat (data_offset_end t - data_offset_begin t) = byte_size t mod 2 ^ 64)))"
    by (simp add: b5_load byte_size_def element_count_def payload_len_def csafetensors_init_def)
  have w: "\<forall>t\<in>set (tensors ?w1).
           data_offset_begin t \<le> data_offset_end t
           \<and> (byte_size t mod 2 ^ 64 = 0
              \<or> (data_offset_end t \<le> payload_len ?w1
                 \<and> unat (data_offset_end t - data_offset_begin t) = byte_size t mod 2 ^ 64))"
    by (simp add: wrap1_load byte_size_def element_count_def payload_len_def csafetensors_init_def)
  from B nb have "\<not> fst (csafetensors_validate ?b5)" by blast
  moreover from W w have "fst (csafetensors_validate ?w1)" by blast
  ultimately show ?thesis by blast
qed

section \<open>The data pointer\<close>

lemma far_parse:
  "parse_safetensors_header oor far_file csafetensors_init =
     (True, csafetensors_init\<lparr>header_size := 53,
        tensors := [\<lparr>name = ''t'', dtype = CSAFETENSORS_DTYPE_UINT8, shape = [1],
                     data_offset_begin = 5, data_offset_end = 6\<rparr>]\<rparr>)"
  unfolding far_file_def far_header_def
  by (simp add: header_eval json_eval strtod_eval csafetensors_init_def)

lemma far_length: "length far_file = 61"
  by (simp add: far_file_def far_header_def)

lemma far_mmap:
  "csafetensors_mmap_from_memory oor 0x1000 far_file st0 =
     (CSAFETENSORS_SUCCESS,
      csafetensors_init\<lparr>header_size := 53,
        tensors := [\<lparr>name = ''t'', dtype = CSAFETENSORS_DTYPE_UINT8, shape = [1],
                     data_offset_begin = 5, data_offset_end = 6\<rparr>],
        mmaped := True, mmap_addr := 0x1000, mmap_size := 61,
        databuffer_addr := 0x103D, databuffer_size := 0\<rparr>)"
  by (simp add: csafetensors_mmap_from_memory_def far_parse far_length NULL_def)

text \<open>
  C4 (amended).  \<open>csafetensors_get_tensor_data\<close> returns \<open>NULL\<close> when the payload
  base is \<open>NULL\<close> or when \<open>offsets.begin\<close> is greater than the payload length, and
  the pointer payload base + \<open>offsets.begin\<close> otherwise.  It reads neither
  \<open>offsets.end\<close> nor the shape or dtype, so a begin offset equal to the payload
  length, or an end offset beyond it, passes.
\<close>

theorem get_tensor_data_checks_begin_only:
  "csafetensors_get_tensor_data st t =
     (if payload_base st = NULL \<or> payload_len st < data_offset_begin t then NULL
      else payload_base st + data_offset_begin t)
   \<and> csafetensors_get_tensor_data st
         (t\<lparr>data_offset_end := e, shape := sh, dtype := dt, name := nm\<rparr>)
       = csafetensors_get_tensor_data st t"
  by (simp add: csafetensors_get_tensor_data_def payload_base_def payload_len_def Let_def)

text \<open>
  The claim as stated fails on the mapped file whose only tensor has offsets \<open>[5,6]\<close>
  and whose payload is empty: the descriptor is in the loaded object, the payload base
  is not \<open>NULL\<close>, and the accessor returns \<open>NULL\<close> instead of base + 5.
\<close>

theorem get_tensor_data_counterexample:
  "(let r = csafetensors_mmap_from_memory (\<lambda>_. 0) 0x1000 far_file csafetensors_init;
        d = hd (tensors (snd r))
    in fst r = CSAFETENSORS_SUCCESS
       \<and> tensors (snd r) = [d]
       \<and> csafetensors_get_tensor_data (snd r) d = NULL
       \<and> payload_base (snd r) + data_offset_begin d = 0x1042
       \<and> csafetensors_get_tensor_data (snd r) d \<noteq> payload_base (snd r) + data_offset_begin d)"
  by (simp add: far_mmap Let_def csafetensors_get_tensor_data_def payload_base_def NULL_def
        csafetensors_init_def)


section \<open>The size checks of the loader\<close>

lemma size_t_of_length:
  assumes "length data < 2 ^ 64"
  shows "unat (of_nat (length data) :: size_t) = length data"
  using assms by (simp add: unat_of_nat)

lemma size_lt_16_iff:
  assumes "length data < 2 ^ 64"
  shows "(of_nat (length data) :: size_t) < 16 \<longleftrightarrow> length data < 16"
  using size_t_of_length [OF assms] by (simp add: word_less_nat_alt)

lemma size_lt_16_small:
  assumes "length data < 16"
  shows "(of_nat (length data) :: size_t) < 16"
proof -
  from assms have "length data < 2 ^ 64" by simp
  from size_lt_16_iff [OF this] assms show ?thesis by simp
qed

lemma header_exceeds_data_iff:
  assumes "length data < 2 ^ 64" "\<not> CSAFETENSORS_MAX_JSON_SIZE < hs"
  shows "(of_nat (length data) :: size_t) < 8 + hs \<longleftrightarrow> length data < 8 + unat hs"
proof -
  from assms(2) have "unat hs \<le> 104857600"
    by (simp add: CSAFETENSORS_MAX_JSON_SIZE_def word_less_nat_alt not_less)
  then have "unat (8 + hs) = 8 + unat hs"
    by (simp add: unat_word_ariths)
  with size_t_of_length [OF assms(1)] show ?thesis
    by (simp add: word_less_nat_alt)
qed

lemma read_u64_le_take: "take 8 data' = take 8 data \<Longrightarrow> read_u64_le data' = read_u64_le data"
  by (simp add: read_u64_le_def)

lemma parse_safetensors_header_rejects_size:
  assumes "length data < 2 ^ 64" "16 \<le> length data"
    and "unat (read_u64_le data) < 2 \<or> 104857600 < unat (read_u64_le data)
         \<or> length data < 8 + unat (read_u64_le data)"
  shows "parse_safetensors_header oor data st
           = (False, st\<lparr>error_msg := header_size_message (read_u64_le data)\<rparr>)"
proof -
  let ?hs = "read_u64_le data"
  have n16: "\<not> (of_nat (length data) :: size_t) < 16"
    using size_lt_16_iff [OF assms(1)] assms(2) by simp
  show ?thesis
  proof (cases "?hs < 2")
    case True
    with n16 show ?thesis
      by (simp add: parse_safetensors_header_def header_size_message_def Let_def)
  next
    case h2: False
    show ?thesis
    proof (cases "CSAFETENSORS_MAX_JSON_SIZE < ?hs")
      case True
      with n16 h2 show ?thesis
        by (simp add: parse_safetensors_header_def header_size_message_def Let_def)
    next
      case False
      from h2 have "\<not> unat ?hs < 2" by (simp add: word_less_nat_alt)
      moreover from False have "\<not> 104857600 < unat ?hs"
        by (simp add: CSAFETENSORS_MAX_JSON_SIZE_def word_less_nat_alt)
      ultimately have "length data < 8 + unat ?hs" using assms(3) by blast
      then have "(of_nat (length data) :: size_t) < 8 + ?hs"
        using header_exceeds_data_iff [OF assms(1) False] by simp
      with n16 h2 False show ?thesis
        by (simp add: parse_safetensors_header_def header_size_message_def Let_def)
    qed
  qed
qed

text \<open>
  C2.  A buffer shorter than 16 bytes makes \<open>load_from_memory\<close> and
  \<open>mmap_from_memory\<close> return \<open>INVALID_ARGUMENT\<close>, the caller's structure untouched.
  For a buffer of at least 16 bytes whose first eight bytes, read little-endian, give
  a header size \<open>H\<close> with \<open>H < 2\<close>, \<open>H > 100 MiB\<close> or \<open>8 + H > size\<close>, both loaders
  fail: they return the error status with one of the three header-size messages, no
  header size and no tensor recorded, and the outcome is the same for every buffer of
  that length with those eight bytes, so the JSON text is not read.
\<close>

theorem load_rejects_short_buffer_and_bad_header_size:
  "(length data < 16 \<longrightarrow>
      csafetensors_load_from_memory oor mres ptr data st
        = (CSAFETENSORS_ERROR_INVALID_ARGUMENT, st)
      \<and> csafetensors_mmap_from_memory oor ptr data st
        = (CSAFETENSORS_ERROR_INVALID_ARGUMENT, st))
   \<and> (16 \<le> length data \<and> length data < 2 ^ 64 \<and> ptr \<noteq> NULL
        \<and> (unat (read_u64_le data) < 2 \<or> 100 * 1024 * 1024 < unat (read_u64_le data)
             \<or> length data < 8 + unat (read_u64_le data)) \<longrightarrow>
      csafetensors_load_from_memory oor mres ptr data st
        = (CSAFETENSORS_ERROR_JSON_PARSE,
           csafetensors_init\<lparr>error_msg := header_size_message (read_u64_le data)\<rparr>)
      \<and> csafetensors_mmap_from_memory oor ptr data st
        = (CSAFETENSORS_ERROR_JSON_PARSE,
           csafetensors_init\<lparr>error_msg := header_size_message (read_u64_le data)\<rparr>)
      \<and> (\<forall>data'. length data' = length data \<and> take 8 data' = take 8 data \<longrightarrow>
             csafetensors_load_from_memory oor mres ptr data' st
               = csafetensors_load_from_memory oor mres ptr data st
             \<and> csafetensors_mmap_from_memory oor ptr data' st
               = csafetensors_mmap_from_memory oor ptr data st))"
proof (intro conjI impI)
  assume "length data < 16"
  then have s: "(of_nat (length data) :: size_t) < 16" by (rule size_lt_16_small)
  show "csafetensors_load_from_memory oor mres ptr data st
          = (CSAFETENSORS_ERROR_INVALID_ARGUMENT, st)"
    using s by (simp add: csafetensors_load_from_memory_def)
  show "csafetensors_mmap_from_memory oor ptr data st
          = (CSAFETENSORS_ERROR_INVALID_ARGUMENT, st)"
    using s by (simp add: csafetensors_mmap_from_memory_def)
next
  assume a: "16 \<le> length data \<and> length data < 2 ^ 64 \<and> ptr \<noteq> NULL
        \<and> (unat (read_u64_le data) < 2 \<or> 100 * 1024 * 1024 < unat (read_u64_le data)
             \<or> length data < 8 + unat (read_u64_le data))"
  have rej: "parse_safetensors_header oor d csafetensors_init
               = (False, csafetensors_init\<lparr>error_msg := header_size_message (read_u64_le data)\<rparr>)"
    if "length d = length data" "take 8 d = take 8 data" for d
  proof -
    have r: "read_u64_le d = read_u64_le data" using that(2) by (rule read_u64_le_take)
    show ?thesis
      using parse_safetensors_header_rejects_size [of d oor csafetensors_init] a that(1)
      by (simp add: r)
  qed
  have n16: "\<not> (of_nat (length data) :: size_t) < 16"
    using a size_lt_16_iff [of data] by simp
  have ld: "csafetensors_load_from_memory oor mres ptr d st
          = (CSAFETENSORS_ERROR_JSON_PARSE,
             csafetensors_init\<lparr>error_msg := header_size_message (read_u64_le data)\<rparr>)"
    if "length d = length data" "take 8 d = take 8 data" for d
    using a n16 rej [OF that] that(1) by (simp add: csafetensors_load_from_memory_def)
  have mm: "csafetensors_mmap_from_memory oor ptr d st
          = (CSAFETENSORS_ERROR_JSON_PARSE,
             csafetensors_init\<lparr>error_msg := header_size_message (read_u64_le data)\<rparr>)"
    if "length d = length data" "take 8 d = take 8 data" for d
    using a n16 rej [OF that] that(1) by (simp add: csafetensors_mmap_from_memory_def)
  show "csafetensors_load_from_memory oor mres ptr data st
        = (CSAFETENSORS_ERROR_JSON_PARSE,
           csafetensors_init\<lparr>error_msg := header_size_message (read_u64_le data)\<rparr>)"
    by (rule ld) simp_all
  show "csafetensors_mmap_from_memory oor ptr data st
        = (CSAFETENSORS_ERROR_JSON_PARSE,
           csafetensors_init\<lparr>error_msg := header_size_message (read_u64_le data)\<rparr>)"
    by (rule mm) simp_all
  show "\<forall>data'. length data' = length data \<and> take 8 data' = take 8 data \<longrightarrow>
             csafetensors_load_from_memory oor mres ptr data' st
               = csafetensors_load_from_memory oor mres ptr data st
             \<and> csafetensors_mmap_from_memory oor ptr data' st
               = csafetensors_mmap_from_memory oor ptr data st"
    using ld mm by simp
qed

lemma b2_read: "read_u64_le b2_file = 0xFFFFFFFFFFFFFFFF"
  by (simp add: read_u64_le_def b2_file_def)

text \<open>
  Boundary cases B1 and B2: a buffer of 15 bytes, and a buffer of 16 bytes whose
  header size is \<open>0xFFFFFFFFFFFFFFFF\<close>.
\<close>

theorem load_rejects_short_buffer_and_bad_header_size_witness:
  "csafetensors_load_from_memory (\<lambda>_. 0) 0x5000 0x1000 b1_file csafetensors_init
     = (CSAFETENSORS_ERROR_INVALID_ARGUMENT, csafetensors_init)
   \<and> csafetensors_mmap_from_memory (\<lambda>_. 0) 0x1000 b1_file csafetensors_init
     = (CSAFETENSORS_ERROR_INVALID_ARGUMENT, csafetensors_init)
   \<and> csafetensors_load_from_memory (\<lambda>_. 0) 0x5000 0x1000 b2_file csafetensors_init
     = (CSAFETENSORS_ERROR_JSON_PARSE, csafetensors_init\<lparr>error_msg := Header_size_exceeds_limit\<rparr>)
   \<and> csafetensors_mmap_from_memory (\<lambda>_. 0) 0x1000 b2_file csafetensors_init
     = (CSAFETENSORS_ERROR_JSON_PARSE, csafetensors_init\<lparr>error_msg := Header_size_exceeds_limit\<rparr>)"
proof -
  have l1: "length b1_file < 16" by (simp add: b1_file_def)
  have l2: "16 \<le> length b2_file \<and> length b2_file < 2 ^ 64 \<and> (0x1000 :: pointer) \<noteq> NULL
        \<and> (unat (read_u64_le b2_file) < 2 \<or> 100 * 1024 * 1024 < unat (read_u64_le b2_file)
             \<or> length b2_file < 8 + unat (read_u64_le b2_file))"
    by (simp add: b2_read) (simp add: b2_file_def NULL_def)
  have m: "header_size_message (read_u64_le b2_file) = Header_size_exceeds_limit"
    by (simp add: b2_read header_size_message_def CSAFETENSORS_MAX_JSON_SIZE_def)
  from load_rejects_short_buffer_and_bad_header_size
         [where data = b1_file and oor = "\<lambda>_. 0" and mres = "0x5000" and ptr = "0x1000"
            and st = csafetensors_init] l1
       load_rejects_short_buffer_and_bad_header_size
         [where data = b2_file and oor = "\<lambda>_. 0" and mres = "0x5000" and ptr = "0x1000"
            and st = csafetensors_init] l2 m
  show ?thesis by simp
qed


section \<open>Casts of shape and offset numbers\<close>

lemma round_binary64_5_2: "round_binary64 (5 / 2) = Finite (5 / 2)"
  using round_binary64_exact [of 5 "-1"] by simp

lemma round_binary64_m1_2: "round_binary64 (- (1 / 2)) = Finite (- (1 / 2))"
  using round_binary64_exact [of "-1" "-1"] by simp

lemma floor_5_2: "\<lfloor>5 / 2 :: rat\<rfloor> = 2"
  by (simp add: floor_eq_iff)

lemma floor_1_2: "\<lfloor>1 / 2 :: rat\<rfloor> = 0"
  by (simp add: floor_eq_iff)

lemma frac_json:
  "json_parse_value frac_header =
     Inr (JSON_OBJECT [(''t'', JSON_OBJECT
            [(''dtype'', JSON_STRING ''U8''),
             (''shape'', JSON_ARRAY [JSON_NUMBER (Finite (5 / 2))]),
             (''data_offsets'', JSON_ARRAY [JSON_NUMBER (Finite 0), JSON_NUMBER (Finite 2)])])], [])"
  unfolding frac_header_def
  by (simp add: json_eval strtod_eval round_binary64_5_2)

lemma neg_json:
  "json_parse_value neg_header =
     Inr (JSON_OBJECT [(''t'', JSON_OBJECT
            [(''dtype'', JSON_STRING ''U8''),
             (''shape'', JSON_ARRAY [JSON_NUMBER (Finite (- (1 / 2)))])])], [])"
  unfolding neg_header_def
  by (simp add: json_eval strtod_eval round_binary64_m1_2)

lemma frac_parse:
  "parse_safetensors_header oor frac_file csafetensors_init =
     (True, csafetensors_init\<lparr>header_size := 55,
        tensors := [\<lparr>name = ''t'', dtype = CSAFETENSORS_DTYPE_UINT8, shape = [2],
                     data_offset_begin = 0, data_offset_end = 2\<rparr>]\<rparr>)"
proof -
  have t: "take 55 (drop 8 frac_file) = frac_header"
    by (simp add: frac_file_def frac_header_def)
  have l: "length frac_file = 65" by (simp add: frac_file_def frac_header_def)
  have r: "read_u64_le frac_file = 55" by (simp add: read_u64_le_def frac_file_def)
  show ?thesis
    by (simp add: parse_safetensors_header_def l r t frac_json CSAFETENSORS_MAX_JSON_SIZE_def
          parse_tensor_def parse_dtype_string_def CSAFETENSORS_MAX_DIM_def
          CSAFETENSORS_MAX_STRING_LEN_def strncpy_zeroed_def double_to_size_t_def
          strcmp_eq_def c_str_def Let_def csafetensors_init_def floor_5_2)
qed

lemma neg_parse:
  "parse_safetensors_header oor neg_file csafetensors_init =
     (True, csafetensors_init\<lparr>header_size := 35,
        tensors := [\<lparr>name = ''t'', dtype = CSAFETENSORS_DTYPE_UINT8, shape = [0],
                     data_offset_begin = 0, data_offset_end = 0\<rparr>]\<rparr>)"
proof -
  have t: "take 35 (drop 8 neg_file) = neg_header"
    by (simp add: neg_file_def neg_header_def)
  have l: "length neg_file = 43" by (simp add: neg_file_def neg_header_def)
  have r: "read_u64_le neg_file = 35" by (simp add: read_u64_le_def neg_file_def)
  show ?thesis
    by (simp add: parse_safetensors_header_def l r t neg_json CSAFETENSORS_MAX_JSON_SIZE_def
          parse_tensor_def parse_dtype_string_def CSAFETENSORS_MAX_DIM_def
          CSAFETENSORS_MAX_STRING_LEN_def strncpy_zeroed_def double_to_size_t_def
          strcmp_eq_def c_str_def Let_def csafetensors_init_def)
qed

lemma frac_load:
  "csafetensors_load_from_memory oor 0x5000 0x1000 frac_file st0 =
     (CSAFETENSORS_SUCCESS,
      csafetensors_init\<lparr>header_size := 55,
        tensors := [\<lparr>name = ''t'', dtype = CSAFETENSORS_DTYPE_UINT8, shape = [2],
                     data_offset_begin = 0, data_offset_end = 2\<rparr>],
        storage := 0x5000, storage_content := replicate 2 (CHR 0x00), storage_size := 2\<rparr>)"
proof -
  have l: "length frac_file = 65" by (simp add: frac_file_def frac_header_def)
  have d: "drop 63 frac_file = replicate 2 (CHR 0x00)"
    by (simp add: frac_file_def frac_header_def)
  show ?thesis
    by (simp add: csafetensors_load_from_memory_def frac_parse l d NULL_def)
       (simp add: csafetensors_init_def)
qed

lemma neg_load:
  "csafetensors_load_from_memory oor 0x5000 0x1000 neg_file st0 =
     (CSAFETENSORS_SUCCESS,
      csafetensors_init\<lparr>header_size := 35,
        tensors := [\<lparr>name = ''t'', dtype = CSAFETENSORS_DTYPE_UINT8, shape = [0],
                     data_offset_begin = 0, data_offset_end = 0\<rparr>],
        storage := 0x5000, storage_content := [], storage_size := 0\<rparr>)"
proof -
  have l: "length neg_file = 43" by (simp add: neg_file_def neg_header_def)
  show ?thesis
    by (simp add: csafetensors_load_from_memory_def neg_parse l NULL_def)
       (simp add: csafetensors_init_def)
qed

lemma parse_shape_numbers:
  "parse_shape oor (map JSON_NUMBER ds) = Some (map (double_to_size_t oor) ds)"
  by (induction ds) simp_all

lemma parse_shape_not_number:
  "\<exists>v\<in>set dims. get_number v = None \<Longrightarrow> parse_shape oor dims = None"
proof (induction dims)
  case Nil
  then show ?case by simp
next
  case (Cons a dims)
  show ?case
  proof (cases "get_number a")
    case None
    then show ?thesis by simp
  next
    case (Some d)
    with Cons.prems have "\<exists>v\<in>set dims. get_number v = None" by auto
    from Cons.IH [OF this] Some show ?thesis by simp
  qed
qed

lemma parse_shape_Some_numbers:
  "parse_shape oor dims = Some shp \<Longrightarrow> \<exists>ds. dims = map JSON_NUMBER ds"
proof (induction dims arbitrary: shp)
  case Nil
  then show ?case by simp
next
  case (Cons v dims)
  from Cons.prems obtain d sh where
    d: "get_number v = Some d" and sh: "parse_shape oor dims = Some sh"
    by (auto split: option.splits)
  from d have v: "v = JSON_NUMBER d" by (cases v) simp_all
  from Cons.IH [OF sh] obtain ds where "dims = map JSON_NUMBER ds" by blast
  with v have "v # dims = map JSON_NUMBER (d # ds)" by simp
  then show ?case by (rule exI)
qed

lemma get_number_Some: "get_number v = Some d \<longleftrightarrow> v = JSON_NUMBER d"
  by (cases v) auto

lemma get_array_Some: "get_array x = Some items \<longleftrightarrow> x = Some (JSON_ARRAY items)"
  by (cases x rule: get_array.cases) auto

lemma length_2_conv: "length xs = 2 \<longleftrightarrow> (\<exists>a b. xs = [a, b])"
  by (cases xs; cases "tl xs"; auto)

section \<open>Rejected entries fail the load\<close>

lemma count_loop_fst:
  "fst (count_loop ps nt nm)
     = nt + length (filter (\<lambda>p. \<not> strcmp_eq (fst p) ''__metadata__'') ps)"
proof (induction ps arbitrary: nt nm)
  case Nil
  then show ?case by simp
next
  case (Cons p ps)
  obtain k v where p: "p = (k, v)" by (cases p)
  show ?case
  proof (cases "strcmp_eq k ''__metadata__''")
    case True
    then show ?thesis using p Cons.IH by (cases v) simp_all
  next
    case False
    then show ?thesis using p Cons.IH by simp
  qed
qed

lemma header_loop_fails:
  assumes "(k, v) \<in> set ps" "\<not> strcmp_eq k ''__metadata__''" "parse_tensor oor k v = Inl e"
    and "length ts + length (filter (\<lambda>p. \<not> strcmp_eq (fst p) ''__metadata__'') ps) \<le> nt"
  shows "\<exists>e'. header_loop oor ps nt nm ts md = Inl e'"
  using assms
proof (induction ps arbitrary: ts md)
  case Nil
  then show ?case by simp
next
  case (Cons p ps)
  obtain k' v' where p: "p = (k', v')" by (cases p)
  show ?case
  proof (cases "strcmp_eq k' ''__metadata__''")
    case True
    with Cons.prems(1,2) p have in_ps: "(k, v) \<in> set ps" by auto
    from True Cons.prems(4) p
    have cnt: "length ts + length (filter (\<lambda>p. \<not> strcmp_eq (fst p) ''__metadata__'') ps) \<le> nt"
      by simp
    from header_loop_metadata_step [OF True, of oor v' ps nt nm ts md]
    obtain md1 where "header_loop oor ((k', v') # ps) nt nm ts md = header_loop oor ps nt nm ts md1"
      by blast
    with Cons.IH [OF in_ps Cons.prems(2,3) cnt, of md1] p show ?thesis by simp
  next
    case False
    with Cons.prems(4) p have lt: "\<not> nt \<le> length ts" by simp
    show ?thesis
    proof (cases "parse_tensor oor k' v'")
      case (Inl e1)
      with False lt p show ?thesis by simp
    next
      case (Inr t)
      with Cons.prems(1,3) p have in_ps: "(k, v) \<in> set ps" by auto
      from False Cons.prems(4) p
      have cnt: "length (ts @ [t])
                 + length (filter (\<lambda>p. \<not> strcmp_eq (fst p) ''__metadata__'') ps) \<le> nt"
        by simp
      from Cons.IH [OF in_ps Cons.prems(2,3) cnt, of md] False lt Inr p
      show ?thesis by simp
    qed
  qed
qed

lemma parse_safetensors_header_entry_fails:
  assumes "json_parse_value (take (unat (read_u64_le data)) (drop 8 data))
             = Inr (JSON_OBJECT pairs, rest)"
    and "(k, v) \<in> set pairs" "\<not> strcmp_eq k ''__metadata__''" "parse_tensor oor k v = Inl e"
  shows "\<not> fst (parse_safetensors_header oor data st)"
proof -
  have "length ([] :: csafetensors_tensor list)
          + length (filter (\<lambda>p. \<not> strcmp_eq (fst p) ''__metadata__'') pairs)
        \<le> fst (count_loop pairs 0 0)"
    by (simp add: count_loop_fst)
  from header_loop_fails [OF assms(2,3,4) this]
  obtain e' where
    "header_loop oor pairs (fst (count_loop pairs 0 0)) (snd (count_loop pairs 0 0)) [] []
       = Inl e'"
    by blast
  with assms(1) show ?thesis
    by (simp add: parse_safetensors_header_def Let_def)
qed

lemma load_entry_fails:
  assumes "json_parse_value (take (unat (read_u64_le data)) (drop 8 data))
             = Inr (JSON_OBJECT pairs, rest)"
    and "(k, v) \<in> set pairs" "\<not> strcmp_eq k ''__metadata__''" "parse_tensor oor k v = Inl e"
  shows "fst (csafetensors_load_from_memory oor mres ptr data st) \<noteq> CSAFETENSORS_SUCCESS"
    and "fst (csafetensors_mmap_from_memory oor ptr data st) \<noteq> CSAFETENSORS_SUCCESS"
proof -
  from parse_safetensors_header_entry_fails [OF assms, of csafetensors_init]
  obtain st1 where "parse_safetensors_header oor data csafetensors_init = (False, st1)"
    by (cases "parse_safetensors_header oor data csafetensors_init") auto
  then show "fst (csafetensors_load_from_memory oor mres ptr data st) \<noteq> CSAFETENSORS_SUCCESS"
    and "fst (csafetensors_mmap_from_memory oor ptr data st) \<noteq> CSAFETENSORS_SUCCESS"
    by (simp_all add: csafetensors_load_from_memory_def csafetensors_mmap_from_memory_def Let_def)
qed

lemma parse_tensor_empty_with_offsets:
  assumes "is_object obj" "get_string (json_object_get obj ''dtype'') = Some ds"
    "parse_dtype_string ds = Some dt" "get_array (json_object_get obj ''shape'') = Some dims"
    "length dims \<le> CSAFETENSORS_MAX_DIM" "parse_shape oor dims = Some shp"
    "0 \<in> set shp" "json_object_get obj ''data_offsets'' \<noteq> None"
  shows "parse_tensor oor nm obj = Inl (Empty_tensor_should_not_have_data_offsets nm)"
  using assms by (auto simp: parse_tensor_def parse_shape_list_ex Let_def)

lemma parse_tensor_empty_without_offsets:
  assumes "is_object obj" "get_string (json_object_get obj ''dtype'') = Some ds"
    "parse_dtype_string ds = Some dt" "get_array (json_object_get obj ''shape'') = Some dims"
    "length dims \<le> CSAFETENSORS_MAX_DIM" "parse_shape oor dims = Some shp"
    "0 \<in> set shp" "json_object_get obj ''data_offsets'' = None"
  shows "parse_tensor oor nm obj =
           Inr \<lparr>name = strncpy_zeroed (CSAFETENSORS_MAX_STRING_LEN - 1) nm, dtype = dt,
                shape = shp, data_offset_begin = 0, data_offset_end = 0\<rparr>"
  using assms by (simp add: parse_tensor_def parse_shape_list_ex Let_def)

lemma parse_tensor_nonempty_iff:
  assumes "is_object obj" "get_string (json_object_get obj ''dtype'') = Some ds"
    "parse_dtype_string ds = Some dt" "get_array (json_object_get obj ''shape'') = Some dims"
    "length dims \<le> CSAFETENSORS_MAX_DIM" "parse_shape oor dims = Some shp"
    "0 \<notin> set shp"
  shows "(\<exists>t. parse_tensor oor nm obj = Inr t) \<longleftrightarrow>
         (\<exists>b e. json_object_get obj ''data_offsets''
                   = Some (JSON_ARRAY [JSON_NUMBER b, JSON_NUMBER e]))"
proof
  assume "\<exists>t. parse_tensor oor nm obj = Inr t"
  then obtain t where t: "parse_tensor oor nm obj = Inr t" by blast
  from t assms obtain items b e where
    a: "get_array (json_object_get obj ''data_offsets'') = Some items"
    and l: "length items = 2"
    and b: "get_number (items ! 0) = Some b" and e: "get_number (items ! 1) = Some e"
    by (auto simp: parse_tensor_def parse_shape_list_ex Let_def split: option.splits if_splits)
  from l obtain x y where xy: "items = [x, y]" by (auto simp: length_2_conv)
  with b e have "items = [JSON_NUMBER b, JSON_NUMBER e]"
    by (simp add: get_number_Some)
  with a show "\<exists>b e. json_object_get obj ''data_offsets''
                   = Some (JSON_ARRAY [JSON_NUMBER b, JSON_NUMBER e])"
    by (auto simp: get_array_Some)
next
  assume "\<exists>b e. json_object_get obj ''data_offsets''
                   = Some (JSON_ARRAY [JSON_NUMBER b, JSON_NUMBER e])"
  with assms show "\<exists>t. parse_tensor oor nm obj = Inr t"
    by (auto simp: parse_tensor_def parse_shape_list_ex Let_def)
qed

lemma parse_tensor_shape_not_number:
  assumes "is_object obj" "get_string (json_object_get obj ''dtype'') = Some dts"
    "parse_dtype_string dts = Some dt" "json_object_get obj ''shape'' = Some (JSON_ARRAY dims)"
    "length dims \<le> CSAFETENSORS_MAX_DIM" "\<exists>v\<in>set dims. get_number v = None"
  shows "parse_tensor oor nm obj = Inl (Invalid_shape_dimension_in_tensor nm)"
proof -
  from assms(6) have "parse_shape oor dims = None" by (rule parse_shape_not_number)
  with assms(1-5) show ?thesis by (simp add: parse_tensor_def)
qed

lemma parse_tensor_offsets_not_number:
  assumes "is_object obj" "get_string (json_object_get obj ''dtype'') = Some dts"
    "parse_dtype_string dts = Some dt" "json_object_get obj ''shape'' = Some (JSON_ARRAY dims)"
    "length dims \<le> CSAFETENSORS_MAX_DIM"
    "json_object_get obj ''data_offsets'' = Some (JSON_ARRAY items)"
    "\<exists>v\<in>set items. get_number v = None"
  shows "\<exists>m. parse_tensor oor nm obj = Inl m"
proof (cases "parse_shape oor dims")
  case None
  with assms(1-5) show ?thesis by (simp add: parse_tensor_def)
next
  case (Some shp)
  have ga: "get_array (json_object_get obj ''shape'') = Some dims" using assms(4) by simp
  show ?thesis
  proof (cases "0 \<in> set shp")
    case True
    have "parse_tensor oor nm obj = Inl (Empty_tensor_should_not_have_data_offsets nm)"
      using assms(1,2,3) ga assms(5) Some True
      by (rule parse_tensor_empty_with_offsets) (simp add: assms(6))
    then show ?thesis by blast
  next
    case False
    have "\<not> (\<exists>t. parse_tensor oor nm obj = Inr t)"
    proof
      assume "\<exists>t. parse_tensor oor nm obj = Inr t"
      with parse_tensor_nonempty_iff [OF assms(1,2,3) ga assms(5) Some False, of nm]
      obtain b e where "json_object_get obj ''data_offsets''
                   = Some (JSON_ARRAY [JSON_NUMBER b, JSON_NUMBER e])"
        by blast
      with assms(6) have "items = [JSON_NUMBER b, JSON_NUMBER e]" by simp
      with assms(7) show False by auto
    qed
    then show ?thesis by (cases "parse_tensor oor nm obj") auto
  qed
qed

text \<open>
  C3 (amended).  Take a tensor entry with a known dtype whose \<open>"shape"\<close> is an array
  of at most 8 elements.  The entry is rejected when an element of \<open>"shape"\<close> is not a
  JSON number, and when \<open>"data_offsets"\<close> is an array with an element that is not a
  JSON number; a rejected entry under a key other than \<open>__metadata__\<close> makes both
  loaders fail.  No test is made on the sign, the fraction or the size of a number:
  when all elements of \<open>"shape"\<close> are numbers, each is stored through the cast
  \<open>(size_t)\<close>, which discards the fraction of a value whose integral part lies in
  \<open>[0, 2\<^sup>6\<^sup>4)\<close> and gives 0 for a value between \<open>-1\<close> and 0, and the entry is
  accepted or rejected from the stored dimensions and the \<open>"data_offsets"\<close> field
  alone: with a stored dimension 0 it is accepted exactly when the field is absent, and
  otherwise exactly when the field is an array of two numbers, whose casts become the
  offsets.
\<close>

theorem shape_and_offset_numbers_are_cast_unchecked:
  assumes "is_object obj"
    and "get_string (json_object_get obj ''dtype'') = Some dts"
    and "parse_dtype_string dts = Some dt"
    and "json_object_get obj ''shape'' = Some (JSON_ARRAY dims)"
    and "length dims \<le> CSAFETENSORS_MAX_DIM"
  shows
    "((\<exists>v\<in>set dims. get_number v = None) \<longrightarrow>
        parse_shape oor dims = None
        \<and> parse_tensor oor nm obj = Inl (Invalid_shape_dimension_in_tensor nm))
   \<and> ((\<exists>items. json_object_get obj ''data_offsets'' = Some (JSON_ARRAY items)
                 \<and> (\<exists>v\<in>set items. get_number v = None)) \<longrightarrow>
        (\<exists>m. parse_tensor oor nm obj = Inl m))
   \<and> (dims = map JSON_NUMBER ds \<longrightarrow>
        parse_shape oor dims = Some (map (double_to_size_t oor) ds)
        \<and> (0 \<in> set (map (double_to_size_t oor) ds)
             \<and> json_object_get obj ''data_offsets'' = None \<longrightarrow>
           parse_tensor oor nm obj =
             Inr \<lparr>name = strncpy_zeroed (CSAFETENSORS_MAX_STRING_LEN - 1) nm, dtype = dt,
                  shape = map (double_to_size_t oor) ds,
                  data_offset_begin = 0, data_offset_end = 0\<rparr>)
        \<and> (0 \<in> set (map (double_to_size_t oor) ds)
             \<and> json_object_get obj ''data_offsets'' \<noteq> None \<longrightarrow>
           parse_tensor oor nm obj = Inl (Empty_tensor_should_not_have_data_offsets nm))
        \<and> (0 \<notin> set (map (double_to_size_t oor) ds)
             \<and> json_object_get obj ''data_offsets''
                 = Some (JSON_ARRAY [JSON_NUMBER b, JSON_NUMBER e]) \<longrightarrow>
           parse_tensor oor nm obj =
             Inr \<lparr>name = strncpy_zeroed (CSAFETENSORS_MAX_STRING_LEN - 1) nm, dtype = dt,
                  shape = map (double_to_size_t oor) ds,
                  data_offset_begin = double_to_size_t oor b,
                  data_offset_end = double_to_size_t oor e\<rparr>)
        \<and> (0 \<notin> set (map (double_to_size_t oor) ds)
             \<and> (\<forall>b e. json_object_get obj ''data_offsets''
                          \<noteq> Some (JSON_ARRAY [JSON_NUMBER b, JSON_NUMBER e])) \<longrightarrow>
           (\<exists>m. parse_tensor oor nm obj = Inl m))
        \<and> (json_object_get obj ''data_offsets'' = Some (JSON_ARRAY [x, y])
             \<and> 0 \<notin> set (map (double_to_size_t oor) ds)
             \<and> (get_number x = None \<or> get_number y = None) \<longrightarrow>
           parse_tensor oor nm obj = Inl (Invalid_data_offsets_in_tensor nm)))
   \<and> (0 \<le> q \<and> q < 2 ^ 64 \<longrightarrow> unat (double_to_size_t oor (Finite q)) = nat \<lfloor>q\<rfloor>)
   \<and> (- 1 < q \<and> q < 0 \<longrightarrow> double_to_size_t oor (Finite q) = 0)
   \<and> (\<forall>data pairs rest mres ptr st.
         json_parse_value (take (unat (read_u64_le data)) (drop 8 data))
             = Inr (JSON_OBJECT pairs, rest)
         \<and> (nm, obj) \<in> set pairs \<and> \<not> strcmp_eq nm ''__metadata__''
         \<and> (\<exists>m. parse_tensor oor nm obj = Inl m) \<longrightarrow>
         fst (csafetensors_load_from_memory oor mres ptr data st) \<noteq> CSAFETENSORS_SUCCESS
         \<and> fst (csafetensors_mmap_from_memory oor ptr data st) \<noteq> CSAFETENSORS_SUCCESS)"
proof -
  have ga: "get_array (json_object_get obj ''shape'') = Some dims" using assms(4) by simp
  have 1: "(\<exists>v\<in>set dims. get_number v = None) \<longrightarrow>
        parse_shape oor dims = None
        \<and> parse_tensor oor nm obj = Inl (Invalid_shape_dimension_in_tensor nm)"
    using parse_shape_not_number [of dims oor] parse_tensor_shape_not_number [OF assms, of oor nm]
    by blast
  have 2: "(\<exists>items. json_object_get obj ''data_offsets'' = Some (JSON_ARRAY items)
                 \<and> (\<exists>v\<in>set items. get_number v = None)) \<longrightarrow>
        (\<exists>m. parse_tensor oor nm obj = Inl m)"
    using parse_tensor_offsets_not_number [OF assms, of _ oor nm] by blast
  have 3: "parse_shape oor dims = Some (map (double_to_size_t oor) ds)"
    "0 \<in> set (map (double_to_size_t oor) ds)
             \<and> json_object_get obj ''data_offsets'' = None \<longrightarrow>
           parse_tensor oor nm obj =
             Inr \<lparr>name = strncpy_zeroed (CSAFETENSORS_MAX_STRING_LEN - 1) nm, dtype = dt,
                  shape = map (double_to_size_t oor) ds,
                  data_offset_begin = 0, data_offset_end = 0\<rparr>"
    "0 \<in> set (map (double_to_size_t oor) ds)
             \<and> json_object_get obj ''data_offsets'' \<noteq> None \<longrightarrow>
           parse_tensor oor nm obj = Inl (Empty_tensor_should_not_have_data_offsets nm)"
    "0 \<notin> set (map (double_to_size_t oor) ds)
             \<and> json_object_get obj ''data_offsets''
                 = Some (JSON_ARRAY [JSON_NUMBER b, JSON_NUMBER e]) \<longrightarrow>
           parse_tensor oor nm obj =
             Inr \<lparr>name = strncpy_zeroed (CSAFETENSORS_MAX_STRING_LEN - 1) nm, dtype = dt,
                  shape = map (double_to_size_t oor) ds,
                  data_offset_begin = double_to_size_t oor b,
                  data_offset_end = double_to_size_t oor e\<rparr>"
    "0 \<notin> set (map (double_to_size_t oor) ds)
             \<and> (\<forall>b e. json_object_get obj ''data_offsets''
                          \<noteq> Some (JSON_ARRAY [JSON_NUMBER b, JSON_NUMBER e])) \<longrightarrow>
           (\<exists>m. parse_tensor oor nm obj = Inl m)"
    "json_object_get obj ''data_offsets'' = Some (JSON_ARRAY [x, y])
             \<and> 0 \<notin> set (map (double_to_size_t oor) ds)
             \<and> (get_number x = None \<or> get_number y = None) \<longrightarrow>
           parse_tensor oor nm obj = Inl (Invalid_data_offsets_in_tensor nm)"
    if d: "dims = map JSON_NUMBER ds"
  proof -
    show ps: "parse_shape oor dims = Some (map (double_to_size_t oor) ds)"
      unfolding d by (rule parse_shape_numbers)
    note ctx = assms(1,2,3) ga assms(5) ps
    show "0 \<in> set (map (double_to_size_t oor) ds)
             \<and> json_object_get obj ''data_offsets'' = None \<longrightarrow>
           parse_tensor oor nm obj =
             Inr \<lparr>name = strncpy_zeroed (CSAFETENSORS_MAX_STRING_LEN - 1) nm, dtype = dt,
                  shape = map (double_to_size_t oor) ds,
                  data_offset_begin = 0, data_offset_end = 0\<rparr>"
      using parse_tensor_empty_without_offsets [OF ctx, of nm] by blast
    show "0 \<in> set (map (double_to_size_t oor) ds)
             \<and> json_object_get obj ''data_offsets'' \<noteq> None \<longrightarrow>
           parse_tensor oor nm obj = Inl (Empty_tensor_should_not_have_data_offsets nm)"
      using parse_tensor_empty_with_offsets [OF ctx, of nm] by blast
    show "0 \<notin> set (map (double_to_size_t oor) ds)
             \<and> json_object_get obj ''data_offsets''
                 = Some (JSON_ARRAY [JSON_NUMBER b, JSON_NUMBER e]) \<longrightarrow>
           parse_tensor oor nm obj =
             Inr \<lparr>name = strncpy_zeroed (CSAFETENSORS_MAX_STRING_LEN - 1) nm, dtype = dt,
                  shape = map (double_to_size_t oor) ds,
                  data_offset_begin = double_to_size_t oor b,
                  data_offset_end = double_to_size_t oor e\<rparr>"
      using assms d
      by (simp add: parse_tensor_def parse_shape_numbers parse_shape_list_ex Let_def)
    show "0 \<notin> set (map (double_to_size_t oor) ds)
             \<and> (\<forall>b e. json_object_get obj ''data_offsets''
                          \<noteq> Some (JSON_ARRAY [JSON_NUMBER b, JSON_NUMBER e])) \<longrightarrow>
           (\<exists>m. parse_tensor oor nm obj = Inl m)"
    proof
      assume a: "0 \<notin> set (map (double_to_size_t oor) ds)
             \<and> (\<forall>b e. json_object_get obj ''data_offsets''
                          \<noteq> Some (JSON_ARRAY [JSON_NUMBER b, JSON_NUMBER e]))"
      then have z: "0 \<notin> set (map (double_to_size_t oor) ds)" by blast
      from parse_tensor_nonempty_iff [OF ctx z, of nm] a
      have "\<not> (\<exists>t. parse_tensor oor nm obj = Inr t)" by blast
      then show "\<exists>m. parse_tensor oor nm obj = Inl m"
        by (cases "parse_tensor oor nm obj") auto
    qed
    show "json_object_get obj ''data_offsets'' = Some (JSON_ARRAY [x, y])
             \<and> 0 \<notin> set (map (double_to_size_t oor) ds)
             \<and> (get_number x = None \<or> get_number y = None) \<longrightarrow>
           parse_tensor oor nm obj = Inl (Invalid_data_offsets_in_tensor nm)"
      using assms d
      by (auto simp: parse_tensor_def parse_shape_numbers parse_shape_list_ex Let_def
               split: option.splits)
  qed
  have 4: "0 \<le> q \<and> q < 2 ^ 64 \<longrightarrow> unat (double_to_size_t oor (Finite q)) = nat \<lfloor>q\<rfloor>"
  proof
    assume q: "0 \<le> q \<and> q < 2 ^ 64"
    then have f0: "0 \<le> \<lfloor>q\<rfloor>" by simp
    from q have "\<lfloor>q\<rfloor> < 2 ^ 64" by (simp add: floor_less_iff)
    with f0 have "nat \<lfloor>q\<rfloor> < 2 ^ 64" by (simp add: nat_less_iff)
    moreover have "double_to_size_t oor (Finite q) = of_nat (nat \<lfloor>q\<rfloor>)"
      using q f0 by (simp add: double_to_size_t_def)
    ultimately show "unat (double_to_size_t oor (Finite q)) = nat \<lfloor>q\<rfloor>"
      by (simp add: unat_of_nat)
  qed
  have 5: "- 1 < q \<and> q < 0 \<longrightarrow> double_to_size_t oor (Finite q) = 0"
    by (simp add: double_to_size_t_def)
  have 6: "\<forall>data pairs rest mres ptr st.
         json_parse_value (take (unat (read_u64_le data)) (drop 8 data))
             = Inr (JSON_OBJECT pairs, rest)
         \<and> (nm, obj) \<in> set pairs \<and> \<not> strcmp_eq nm ''__metadata__''
         \<and> (\<exists>m. parse_tensor oor nm obj = Inl m) \<longrightarrow>
         fst (csafetensors_load_from_memory oor mres ptr data st) \<noteq> CSAFETENSORS_SUCCESS
         \<and> fst (csafetensors_mmap_from_memory oor ptr data st) \<noteq> CSAFETENSORS_SUCCESS"
  proof (intro allI impI)
    fix data pairs rest mres ptr st
    assume a: "json_parse_value (take (unat (read_u64_le data)) (drop 8 data))
             = Inr (JSON_OBJECT pairs, rest)
         \<and> (nm, obj) \<in> set pairs \<and> \<not> strcmp_eq nm ''__metadata__''
         \<and> (\<exists>m. parse_tensor oor nm obj = Inl m)"
    then obtain m where m: "parse_tensor oor nm obj = Inl m" by blast
    from a have j: "json_parse_value (take (unat (read_u64_le data)) (drop 8 data))
             = Inr (JSON_OBJECT pairs, rest)"
      and i: "(nm, obj) \<in> set pairs" and k: "\<not> strcmp_eq nm ''__metadata__''"
      by blast+
    show "fst (csafetensors_load_from_memory oor mres ptr data st) \<noteq> CSAFETENSORS_SUCCESS
         \<and> fst (csafetensors_mmap_from_memory oor ptr data st) \<noteq> CSAFETENSORS_SUCCESS"
      using load_entry_fails [OF j i k m] by blast
  qed
  from 1 2 3 4 5 6 show ?thesis by blast
qed

text \<open>
  Entries named \<open>t\<close> of dtype \<open>U8\<close>: the shape \<open>[3, "4"]\<close> is rejected; the shape
  \<open>[2.5]\<close> with offsets \<open>[0, 2]\<close> is accepted with the dimension 2; the same shape
  with offsets \<open>[0, null]\<close> is rejected; and the shape \<open>[0.5]\<close>, stored as 0, is
  rejected with offsets \<open>[0, 1]\<close> and accepted without offsets.
\<close>

theorem shape_and_offset_numbers_are_cast_unchecked_witness:
  "parse_tensor (\<lambda>_. 0) ''t''
        (JSON_OBJECT [(''dtype'', JSON_STRING ''U8''),
                      (''shape'', JSON_ARRAY [JSON_NUMBER (Finite 3), JSON_STRING ''4'']),
                      (''data_offsets'', JSON_ARRAY [JSON_NUMBER (Finite 0), JSON_NUMBER (Finite 2)])])
      = Inl (Invalid_shape_dimension_in_tensor ''t'')
   \<and> parse_tensor (\<lambda>_. 0) ''t''
        (JSON_OBJECT [(''dtype'', JSON_STRING ''U8''),
                      (''shape'', JSON_ARRAY [JSON_NUMBER (Finite (5 / 2))]),
                      (''data_offsets'', JSON_ARRAY [JSON_NUMBER (Finite 0), JSON_NUMBER (Finite 2)])])
      = Inr \<lparr>name = ''t'', dtype = CSAFETENSORS_DTYPE_UINT8, shape = [2],
             data_offset_begin = 0, data_offset_end = 2\<rparr>
   \<and> parse_tensor (\<lambda>_. 0) ''t''
        (JSON_OBJECT [(''dtype'', JSON_STRING ''U8''),
                      (''shape'', JSON_ARRAY [JSON_NUMBER (Finite (5 / 2))]),
                      (''data_offsets'', JSON_ARRAY [JSON_NUMBER (Finite 0), JSON_NULL])])
      = Inl (Invalid_data_offsets_in_tensor ''t'')
   \<and> parse_tensor (\<lambda>_. 0) ''t''
        (JSON_OBJECT [(''dtype'', JSON_STRING ''U8''),
                      (''shape'', JSON_ARRAY [JSON_NUMBER (Finite (1 / 2))]),
                      (''data_offsets'', JSON_ARRAY [JSON_NUMBER (Finite 0), JSON_NUMBER (Finite 1)])])
      = Inl (Empty_tensor_should_not_have_data_offsets ''t'')
   \<and> parse_tensor (\<lambda>_. 0) ''t''
        (JSON_OBJECT [(''dtype'', JSON_STRING ''U8''),
                      (''shape'', JSON_ARRAY [JSON_NUMBER (Finite (1 / 2))])])
      = Inr \<lparr>name = ''t'', dtype = CSAFETENSORS_DTYPE_UINT8, shape = [0],
             data_offset_begin = 0, data_offset_end = 0\<rparr>
   \<and> double_to_size_t (\<lambda>_. 0) (Finite (5 / 2)) = 2
   \<and> double_to_size_t (\<lambda>_. 0) (Finite (- (1 / 2))) = 0"
proof -
  let ?oor = "(\<lambda>_. 0) :: c_double \<Rightarrow> size_t"
  let ?offs = "(''data_offsets'', JSON_ARRAY [JSON_NUMBER (Finite 0), JSON_NUMBER (Finite 2)])"
  let ?o1 = "JSON_OBJECT [(''dtype'', JSON_STRING ''U8''),
                      (''shape'', JSON_ARRAY [JSON_NUMBER (Finite 3), JSON_STRING ''4'']), ?offs]"
  let ?o2 = "JSON_OBJECT [(''dtype'', JSON_STRING ''U8''),
                      (''shape'', JSON_ARRAY [JSON_NUMBER (Finite (5 / 2))]), ?offs]"
  let ?o3 = "JSON_OBJECT [(''dtype'', JSON_STRING ''U8''),
                      (''shape'', JSON_ARRAY [JSON_NUMBER (Finite (5 / 2))]),
                      (''data_offsets'', JSON_ARRAY [JSON_NUMBER (Finite 0), JSON_NULL])]"
  let ?o4 = "JSON_OBJECT [(''dtype'', JSON_STRING ''U8''),
                      (''shape'', JSON_ARRAY [JSON_NUMBER (Finite (1 / 2))]),
                      (''data_offsets'', JSON_ARRAY [JSON_NUMBER (Finite 0), JSON_NUMBER (Finite 1)])]"
  let ?o5 = "JSON_OBJECT [(''dtype'', JSON_STRING ''U8''),
                      (''shape'', JSON_ARRAY [JSON_NUMBER (Finite (1 / 2))])]"
  have dt: "parse_dtype_string ''U8'' = Some CSAFETENSORS_DTYPE_UINT8"
    by (simp add: parse_dtype_string_def strcmp_eq_def c_str_def)
  have nm: "strncpy_zeroed (CSAFETENSORS_MAX_STRING_LEN - 1) ''t'' = ''t''"
    by (simp add: strncpy_zeroed_def c_str_def CSAFETENSORS_MAX_STRING_LEN_def)
  have c0: "double_to_size_t ?oor (Finite 0) = 0" by (simp add: double_to_size_t_def)
  have c22: "double_to_size_t ?oor (Finite 2) = 2" by (simp add: double_to_size_t_def)
  have c12: "double_to_size_t ?oor (Finite (1 / 2)) = 0"
    by (simp add: double_to_size_t_def floor_1_2)
  note T = shape_and_offset_numbers_are_cast_unchecked
  have h1: "is_object ?o1" "get_string (json_object_get ?o1 ''dtype'') = Some ''U8''"
    "json_object_get ?o1 ''shape'' = Some (JSON_ARRAY [JSON_NUMBER (Finite 3), JSON_STRING ''4''])"
    "length [JSON_NUMBER (Finite 3), JSON_STRING ''4''] \<le> CSAFETENSORS_MAX_DIM"
    by (simp_all add: strcmp_eq_def c_str_def CSAFETENSORS_MAX_DIM_def)
  have p1: "\<exists>v\<in>set [JSON_NUMBER (Finite 3), JSON_STRING ''4'']. get_number v = None" by simp
  from mp [OF conjunct1 [OF T [OF h1(1,2) dt h1(3,4), of ?oor "''t''"]] p1]
  have r1: "parse_tensor ?oor ''t'' ?o1 = Inl (Invalid_shape_dimension_in_tensor ''t'')"
    by (rule conjunct2)
  have h2: "is_object ?o2" "get_string (json_object_get ?o2 ''dtype'') = Some ''U8''"
    "json_object_get ?o2 ''shape'' = Some (JSON_ARRAY [JSON_NUMBER (Finite (5 / 2))])"
    "length [JSON_NUMBER (Finite (5 / 2))] \<le> CSAFETENSORS_MAX_DIM"
    by (simp_all add: strcmp_eq_def c_str_def CSAFETENSORS_MAX_DIM_def)
  have d2: "[JSON_NUMBER (Finite (5 / 2))] = map JSON_NUMBER [Finite (5 / 2)]" by simp
  note T2 = T [OF h2(1,2) dt h2(3,4),
                where oor = ?oor and nm = "''t''" and ds = "[Finite (5 / 2)]" and q = "5 / 2"
                  and b = "Finite 0" and e = "Finite 2"]
  have "(0::rat) \<le> 5 / 2 \<and> (5 / 2 :: rat) < 2 ^ 64" by simp
  from mp [OF conjunct1 [OF conjunct2 [OF conjunct2 [OF conjunct2 [OF T2]]]] this]
  have "unat (double_to_size_t ?oor (Finite (5 / 2))) = 2" by (simp add: floor_5_2)
  then have c52: "double_to_size_t ?oor (Finite (5 / 2)) = 2"
    by (intro unsigned_word_eqI [where ?'a = nat]) simp
  have p2: "0 \<notin> set (map (double_to_size_t ?oor) [Finite (5 / 2)])
            \<and> json_object_get ?o2 ''data_offsets''
                 = Some (JSON_ARRAY [JSON_NUMBER (Finite 0), JSON_NUMBER (Finite 2)])"
    by (simp add: c52 strcmp_eq_def c_str_def)
  from mp [OF conjunct1 [OF conjunct2 [OF conjunct2 [OF T2]]] d2] p2
  have "parse_tensor ?oor ''t'' ?o2 =
             Inr \<lparr>name = strncpy_zeroed (CSAFETENSORS_MAX_STRING_LEN - 1) ''t'',
                  dtype = CSAFETENSORS_DTYPE_UINT8,
                  shape = map (double_to_size_t ?oor) [Finite (5 / 2)],
                  data_offset_begin = double_to_size_t ?oor (Finite 0),
                  data_offset_end = double_to_size_t ?oor (Finite 2)\<rparr>"
    by blast
  then have r2: "parse_tensor ?oor ''t'' ?o2
      = Inr \<lparr>name = ''t'', dtype = CSAFETENSORS_DTYPE_UINT8, shape = [2],
             data_offset_begin = 0, data_offset_end = 2\<rparr>"
    by (simp only: nm c52 c0 c22 list.map)
  have h3: "is_object ?o3" "get_string (json_object_get ?o3 ''dtype'') = Some ''U8''"
    "json_object_get ?o3 ''shape'' = Some (JSON_ARRAY [JSON_NUMBER (Finite (5 / 2))])"
    by (simp_all add: strcmp_eq_def c_str_def)
  note T3 = T [OF h3(1,2) dt h3(3) h2(4),
                where oor = ?oor and nm = "''t''" and ds = "[Finite (5 / 2)]"
                  and x = "JSON_NUMBER (Finite 0)" and y = JSON_NULL]
  have p3: "json_object_get ?o3 ''data_offsets'' = Some (JSON_ARRAY [JSON_NUMBER (Finite 0), JSON_NULL])
             \<and> 0 \<notin> set (map (double_to_size_t ?oor) [Finite (5 / 2)])
             \<and> (get_number (JSON_NUMBER (Finite 0)) = None \<or> get_number JSON_NULL = None)"
    by (simp add: c52 strcmp_eq_def c_str_def)
  from mp [OF conjunct1 [OF conjunct2 [OF conjunct2 [OF T3]]] d2] p3
  have r3: "parse_tensor ?oor ''t'' ?o3 = Inl (Invalid_data_offsets_in_tensor ''t'')"
    by blast
  have h4: "is_object ?o4" "get_string (json_object_get ?o4 ''dtype'') = Some ''U8''"
    "json_object_get ?o4 ''shape'' = Some (JSON_ARRAY [JSON_NUMBER (Finite (1 / 2))])"
    "length [JSON_NUMBER (Finite (1 / 2))] \<le> CSAFETENSORS_MAX_DIM"
    by (simp_all add: strcmp_eq_def c_str_def CSAFETENSORS_MAX_DIM_def)
  have d4: "[JSON_NUMBER (Finite (1 / 2))] = map JSON_NUMBER [Finite (1 / 2)]" by simp
  note T4 = T [OF h4(1,2) dt h4(3,4),
                where oor = ?oor and nm = "''t''" and ds = "[Finite (1 / 2)]"]
  have p4: "0 \<in> set (map (double_to_size_t ?oor) [Finite (1 / 2)])
             \<and> json_object_get ?o4 ''data_offsets'' \<noteq> None"
    by (simp add: c12 strcmp_eq_def c_str_def)
  from mp [OF conjunct1 [OF conjunct2 [OF conjunct2 [OF T4]]] d4] p4
  have r4: "parse_tensor ?oor ''t'' ?o4 = Inl (Empty_tensor_should_not_have_data_offsets ''t'')"
    by blast
  have h5: "is_object ?o5" "get_string (json_object_get ?o5 ''dtype'') = Some ''U8''"
    "json_object_get ?o5 ''shape'' = Some (JSON_ARRAY [JSON_NUMBER (Finite (1 / 2))])"
    by (simp_all add: strcmp_eq_def c_str_def)
  note T5 = T [OF h5(1,2) dt h5(3) h4(4),
                where oor = ?oor and nm = "''t''" and ds = "[Finite (1 / 2)]"
                  and q = "- (1 / 2)"]
  have p5: "0 \<in> set (map (double_to_size_t ?oor) [Finite (1 / 2)])
             \<and> json_object_get ?o5 ''data_offsets'' = None"
    by (simp add: c12 strcmp_eq_def c_str_def)
  from mp [OF conjunct1 [OF conjunct2 [OF conjunct2 [OF T5]]] d4] p5
  have "parse_tensor ?oor ''t'' ?o5 =
             Inr \<lparr>name = strncpy_zeroed (CSAFETENSORS_MAX_STRING_LEN - 1) ''t'',
                  dtype = CSAFETENSORS_DTYPE_UINT8,
                  shape = map (double_to_size_t ?oor) [Finite (1 / 2)],
                  data_offset_begin = 0, data_offset_end = 0\<rparr>"
    by blast
  then have r5: "parse_tensor ?oor ''t'' ?o5
      = Inr \<lparr>name = ''t'', dtype = CSAFETENSORS_DTYPE_UINT8, shape = [0],
             data_offset_begin = 0, data_offset_end = 0\<rparr>"
    by (simp only: nm c12 list.map)
  have "- 1 < (- (1 / 2) :: rat) \<and> (- (1 / 2) :: rat) < 0" by simp
  from mp [OF conjunct1 [OF conjunct2 [OF conjunct2 [OF conjunct2 [OF conjunct2 [OF T5]]]]] this]
  have c2: "double_to_size_t ?oor (Finite (- (1 / 2))) = 0" .
  from r1 r2 r3 r4 r5 c52 c2 show ?thesis by blast
qed

text \<open>
  The claim as stated fails on the two files whose shapes are \<open>[2.5]\<close> and
  \<open>[-0.5]\<close>: the reader yields the non-integral and the negative number, and both
  loads succeed, with the dimension stored as 2 and as 0.
\<close>

theorem shape_number_not_rejected_counterexample:
  "json_parse_value frac_header =
     Inr (JSON_OBJECT [(''t'', JSON_OBJECT
            [(''dtype'', JSON_STRING ''U8''),
             (''shape'', JSON_ARRAY [JSON_NUMBER (Finite (5 / 2))]),
             (''data_offsets'', JSON_ARRAY [JSON_NUMBER (Finite 0), JSON_NUMBER (Finite 2)])])], [])
   \<and> csafetensors_load_from_memory (\<lambda>_. 0) 0x5000 0x1000 frac_file csafetensors_init =
     (CSAFETENSORS_SUCCESS,
      csafetensors_init\<lparr>header_size := 55,
        tensors := [\<lparr>name = ''t'', dtype = CSAFETENSORS_DTYPE_UINT8, shape = [2],
                     data_offset_begin = 0, data_offset_end = 2\<rparr>],
        storage := 0x5000, storage_content := replicate 2 (CHR 0x00), storage_size := 2\<rparr>)
   \<and> json_parse_value neg_header =
     Inr (JSON_OBJECT [(''t'', JSON_OBJECT
            [(''dtype'', JSON_STRING ''U8''),
             (''shape'', JSON_ARRAY [JSON_NUMBER (Finite (- (1 / 2)))])])], [])
   \<and> csafetensors_load_from_memory (\<lambda>_. 0) 0x5000 0x1000 neg_file csafetensors_init =
     (CSAFETENSORS_SUCCESS,
      csafetensors_init\<lparr>header_size := 35,
        tensors := [\<lparr>name = ''t'', dtype = CSAFETENSORS_DTYPE_UINT8, shape = [0],
                     data_offset_begin = 0, data_offset_end = 0\<rparr>],
        storage := 0x5000, storage_content := [], storage_size := 0\<rparr>)"
  using frac_json neg_json frac_load [of "\<lambda>_. 0" csafetensors_init]
    neg_load [of "\<lambda>_. 0" csafetensors_init]
  by blast


section \<open>Presence of data offsets and emptiness\<close>

lemma s4_json:
  "json_parse_value s4_header =
     Inr (JSON_OBJECT [(''e'', JSON_OBJECT
            [(''dtype'', JSON_STRING ''F32''),
             (''shape'', JSON_ARRAY [JSON_NUMBER (Finite 0), JSON_NUMBER (Finite 10)])])], [])"
  unfolding s4_header_def
  by (simp add: json_eval strtod_eval)

lemma b4_json:
  "json_parse_value b4_header =
     Inr (JSON_OBJECT [(''e'', JSON_OBJECT
            [(''dtype'', JSON_STRING ''F32''),
             (''shape'', JSON_ARRAY [JSON_NUMBER (Finite 0), JSON_NUMBER (Finite 10)]),
             (''data_offsets'', JSON_ARRAY [JSON_NUMBER (Finite 0), JSON_NUMBER (Finite 0)])])], [])"
  unfolding b4_header_def
  by (simp add: json_eval strtod_eval)

lemma s4_parse:
  "parse_safetensors_header oor s4_file csafetensors_init =
     (True, csafetensors_init\<lparr>header_size := 36,
        tensors := [\<lparr>name = ''e'', dtype = CSAFETENSORS_DTYPE_FLOAT32, shape = [0, 10],
                     data_offset_begin = 0, data_offset_end = 0\<rparr>]\<rparr>)"
proof -
  have t: "take 36 (drop 8 s4_file) = s4_header"
    by (simp add: s4_file_def s4_header_def)
  have l: "length s4_file = 44" by (simp add: s4_file_def s4_header_def)
  have r: "read_u64_le s4_file = 36" by (simp add: read_u64_le_def s4_file_def)
  show ?thesis
    by (simp add: parse_safetensors_header_def l r t s4_json CSAFETENSORS_MAX_JSON_SIZE_def
          parse_tensor_def parse_dtype_string_def CSAFETENSORS_MAX_DIM_def
          CSAFETENSORS_MAX_STRING_LEN_def strncpy_zeroed_def double_to_size_t_def
          strcmp_eq_def c_str_def Let_def csafetensors_init_def)
qed

lemma s4_load:
  "csafetensors_load_from_memory oor 0x5000 0x1000 s4_file st0 =
     (CSAFETENSORS_SUCCESS,
      csafetensors_init\<lparr>header_size := 36,
        tensors := [\<lparr>name = ''e'', dtype = CSAFETENSORS_DTYPE_FLOAT32, shape = [0, 10],
                     data_offset_begin = 0, data_offset_end = 0\<rparr>],
        storage := 0x5000, storage_content := [], storage_size := 0\<rparr>)"
proof -
  have l: "length s4_file = 44" by (simp add: s4_file_def s4_header_def)
  show ?thesis
    by (simp add: csafetensors_load_from_memory_def s4_parse l NULL_def)
       (simp add: csafetensors_init_def)
qed

lemma b4_take: "take (unat (read_u64_le b4_file)) (drop 8 b4_file) = b4_header"
proof -
  have r: "read_u64_le b4_file = 57" by (simp add: read_u64_le_def b4_file_def)
  show ?thesis by (simp add: r) (simp add: b4_file_def b4_header_def)
qed

text \<open>
  C5 (amended).  Take a tensor entry whose \<open>"dtype"\<close> is known and whose \<open>"shape"\<close>
  is an array of at most 8 numbers, and let \<open>shp\<close> be the dimensions as stored, that
  is, after the cast \<open>(size_t)\<close> of each number.  If some stored dimension is 0 and
  the entry has a \<open>"data_offsets"\<close> field, the entry is rejected; if some stored
  dimension is 0 and the field is absent, the entry is accepted with both offsets 0 and
  byte size 0; if no stored dimension is 0, the entry is accepted exactly when
  \<open>"data_offsets"\<close> is an array of two numbers.  Whenever the entry is rejected, every
  load of a buffer whose header holds it under a key other than \<open>__metadata__\<close> fails.
\<close>

theorem data_offsets_presence_matches_emptiness:
  assumes "is_object obj"
    and "get_string (json_object_get obj ''dtype'') = Some ds"
    and "parse_dtype_string ds = Some dt"
    and "get_array (json_object_get obj ''shape'') = Some dims"
    and "length dims \<le> CSAFETENSORS_MAX_DIM"
    and "parse_shape oor dims = Some shp"
  shows
    "(0 \<in> set shp \<and> json_object_get obj ''data_offsets'' \<noteq> None \<longrightarrow>
        parse_tensor oor nm obj = Inl (Empty_tensor_should_not_have_data_offsets nm))
   \<and> (0 \<in> set shp \<and> json_object_get obj ''data_offsets'' = None \<longrightarrow>
        (\<exists>t. parse_tensor oor nm obj = Inr t \<and> shape t = shp \<and> dtype t = dt
              \<and> data_offset_begin t = 0 \<and> data_offset_end t = 0
              \<and> is_empty_tensor t \<and> byte_size t = 0 \<and> tensor_size t = 0))
   \<and> (0 \<notin> set shp \<longrightarrow>
        ((\<exists>t. parse_tensor oor nm obj = Inr t) \<longleftrightarrow>
         (\<exists>b e. json_object_get obj ''data_offsets''
                   = Some (JSON_ARRAY [JSON_NUMBER b, JSON_NUMBER e]))))
   \<and> (\<forall>data pairs rest mres ptr st.
         json_parse_value (take (unat (read_u64_le data)) (drop 8 data))
             = Inr (JSON_OBJECT pairs, rest)
         \<and> (nm, obj) \<in> set pairs \<and> \<not> strcmp_eq nm ''__metadata__''
         \<and> (\<forall>t. parse_tensor oor nm obj \<noteq> Inr t) \<longrightarrow>
         fst (csafetensors_load_from_memory oor mres ptr data st) \<noteq> CSAFETENSORS_SUCCESS
         \<and> fst (csafetensors_mmap_from_memory oor ptr data st) \<noteq> CSAFETENSORS_SUCCESS)"
proof (intro conjI impI allI)
  assume "0 \<in> set shp \<and> json_object_get obj ''data_offsets'' \<noteq> None"
  then have "0 \<in> set shp" "json_object_get obj ''data_offsets'' \<noteq> None" by blast+
  with assms show "parse_tensor oor nm obj = Inl (Empty_tensor_should_not_have_data_offsets nm)"
    by (intro parse_tensor_empty_with_offsets) simp_all
next
  assume a: "0 \<in> set shp \<and> json_object_get obj ''data_offsets'' = None"
  let ?t = "\<lparr>name = strncpy_zeroed (CSAFETENSORS_MAX_STRING_LEN - 1) nm, dtype = dt,
                shape = shp, data_offset_begin = 0, data_offset_end = 0\<rparr>"
  from a have a1: "0 \<in> set shp" and a2: "json_object_get obj ''data_offsets'' = None"
    by blast+
  have p: "parse_tensor oor nm obj = Inr ?t"
    using assms a1 a2 by (intro parse_tensor_empty_without_offsets) simp_all
  have e: "is_empty_tensor ?t" using a1 by (simp add: is_empty_tensor_def)
  have b: "byte_size ?t = 0"
    using element_count_empty [OF e] by (simp add: byte_size_def)
  have "tensor_size ?t = 0" using b by (simp add: tensor_size_eq)
  with p e b show "\<exists>t. parse_tensor oor nm obj = Inr t \<and> shape t = shp \<and> dtype t = dt
              \<and> data_offset_begin t = 0 \<and> data_offset_end t = 0
              \<and> is_empty_tensor t \<and> byte_size t = 0 \<and> tensor_size t = 0"
    by (intro exI [of _ ?t]) simp
next
  assume "0 \<notin> set shp"
  with assms show "(\<exists>t. parse_tensor oor nm obj = Inr t) \<longleftrightarrow>
         (\<exists>b e. json_object_get obj ''data_offsets''
                   = Some (JSON_ARRAY [JSON_NUMBER b, JSON_NUMBER e]))"
    by (intro parse_tensor_nonempty_iff) simp_all
next
  fix data pairs rest mres ptr st
  assume a: "json_parse_value (take (unat (read_u64_le data)) (drop 8 data))
             = Inr (JSON_OBJECT pairs, rest)
         \<and> (nm, obj) \<in> set pairs \<and> \<not> strcmp_eq nm ''__metadata__''
         \<and> (\<forall>t. parse_tensor oor nm obj \<noteq> Inr t)"
  then obtain e where e: "parse_tensor oor nm obj = Inl e"
    by (cases "parse_tensor oor nm obj") auto
  from a have j: "json_parse_value (take (unat (read_u64_le data)) (drop 8 data))
             = Inr (JSON_OBJECT pairs, rest)"
    and m: "(nm, obj) \<in> set pairs" and k: "\<not> strcmp_eq nm ''__metadata__''"
    by blast+
  show "fst (csafetensors_load_from_memory oor mres ptr data st) \<noteq> CSAFETENSORS_SUCCESS"
    by (rule load_entry_fails(1) [OF j m k e])
  show "fst (csafetensors_mmap_from_memory oor ptr data st) \<noteq> CSAFETENSORS_SUCCESS"
    by (rule load_entry_fails(2) [OF j m k e])
qed

text \<open>
  Scenario S4 and boundary case B4: the entry \<open>"e"\<close> with shape \<open>[0,10]\<close>, first
  without \<open>"data_offsets"\<close> (the file loads, both offsets are 0) and then with
  \<open>"data_offsets":[0,0]\<close> (the load fails).
\<close>

theorem data_offsets_presence_matches_emptiness_witness:
  "csafetensors_load_from_memory (\<lambda>_. 0) 0x5000 0x1000 s4_file csafetensors_init =
     (CSAFETENSORS_SUCCESS,
      csafetensors_init\<lparr>header_size := 36,
        tensors := [\<lparr>name = ''e'', dtype = CSAFETENSORS_DTYPE_FLOAT32, shape = [0, 10],
                     data_offset_begin = 0, data_offset_end = 0\<rparr>],
        storage := 0x5000, storage_content := [], storage_size := 0\<rparr>)
   \<and> parse_tensor (\<lambda>_. 0) ''e''
        (JSON_OBJECT [(''dtype'', JSON_STRING ''F32''),
           (''shape'', JSON_ARRAY [JSON_NUMBER (Finite 0), JSON_NUMBER (Finite 10)]),
           (''data_offsets'', JSON_ARRAY [JSON_NUMBER (Finite 0), JSON_NUMBER (Finite 0)])])
       = Inl (Empty_tensor_should_not_have_data_offsets ''e'')
   \<and> fst (csafetensors_load_from_memory (\<lambda>_. 0) 0x5000 0x1000 b4_file csafetensors_init)
       \<noteq> CSAFETENSORS_SUCCESS
   \<and> fst (csafetensors_mmap_from_memory (\<lambda>_. 0) 0x1000 b4_file csafetensors_init)
       \<noteq> CSAFETENSORS_SUCCESS"
proof -
  let ?oor = "(\<lambda>_. 0) :: c_double \<Rightarrow> size_t"
  let ?obj = "JSON_OBJECT [(''dtype'', JSON_STRING ''F32''),
           (''shape'', JSON_ARRAY [JSON_NUMBER (Finite 0), JSON_NUMBER (Finite 10)]),
           (''data_offsets'', JSON_ARRAY [JSON_NUMBER (Finite 0), JSON_NUMBER (Finite 0)])]"
  have h1: "is_object ?obj" by simp
  have h2: "get_string (json_object_get ?obj ''dtype'') = Some ''F32''"
    by (simp add: strcmp_eq_def c_str_def)
  have h3: "parse_dtype_string ''F32'' = Some CSAFETENSORS_DTYPE_FLOAT32"
    by (simp add: parse_dtype_string_def strcmp_eq_def c_str_def)
  have h4: "get_array (json_object_get ?obj ''shape'')
              = Some [JSON_NUMBER (Finite 0), JSON_NUMBER (Finite 10)]"
    by (simp add: strcmp_eq_def c_str_def)
  have h5: "length [JSON_NUMBER (Finite 0), JSON_NUMBER (Finite 10)] \<le> CSAFETENSORS_MAX_DIM"
    by (simp add: CSAFETENSORS_MAX_DIM_def)
  have h6: "parse_shape ?oor [JSON_NUMBER (Finite 0), JSON_NUMBER (Finite 10)] = Some [0, 10]"
    by (simp add: double_to_size_t_def)
  note T = data_offsets_presence_matches_emptiness [OF h1 h2 h3 h4 h5 h6, of "''e''"]
  have off: "json_object_get ?obj ''data_offsets'' \<noteq> None"
    by (simp add: strcmp_eq_def c_str_def)
  from T off have rej: "parse_tensor ?oor ''e'' ?obj
       = Inl (Empty_tensor_should_not_have_data_offsets ''e'')"
    by simp
  have pre: "json_parse_value (take (unat (read_u64_le b4_file)) (drop 8 b4_file))
             = Inr (JSON_OBJECT [(''e'', ?obj)], [])
         \<and> (''e'', ?obj) \<in> set [(''e'', ?obj)] \<and> \<not> strcmp_eq ''e'' ''__metadata__''
         \<and> (\<forall>t. parse_tensor ?oor ''e'' ?obj \<noteq> Inr t)"
    by (simp add: b4_take b4_json rej strcmp_eq_def c_str_def)
  from T pre
  have "fst (csafetensors_load_from_memory ?oor 0x5000 0x1000 b4_file csafetensors_init)
       \<noteq> CSAFETENSORS_SUCCESS
   \<and> fst (csafetensors_mmap_from_memory ?oor 0x1000 b4_file csafetensors_init)
       \<noteq> CSAFETENSORS_SUCCESS"
    by blast
  with rej s4_load [of ?oor csafetensors_init] show ?thesis by blast
qed

text \<open>
  The claim as stated, on the dimensions written in the header, fails on the file whose
  only entry has the shape \<open>[-0.5]\<close> and no \<open>"data_offsets"\<close>: no dimension of the
  entry is zero, the field is not an array of two numbers, and the load succeeds, the
  dimension being stored as 0.
\<close>

theorem nonzero_dimension_stored_as_zero_counterexample:
  "json_parse_value neg_header =
     Inr (JSON_OBJECT [(''t'', JSON_OBJECT
            [(''dtype'', JSON_STRING ''U8''),
             (''shape'', JSON_ARRAY [JSON_NUMBER (Finite (- (1 / 2)))])])], [])
   \<and> JSON_NUMBER (Finite 0) \<notin> set [JSON_NUMBER (Finite (- (1 / 2)))]
   \<and> json_object_get (JSON_OBJECT
            [(''dtype'', JSON_STRING ''U8''),
             (''shape'', JSON_ARRAY [JSON_NUMBER (Finite (- (1 / 2)))])]) ''data_offsets'' = None
   \<and> csafetensors_load_from_memory (\<lambda>_. 0) 0x5000 0x1000 neg_file csafetensors_init =
     (CSAFETENSORS_SUCCESS,
      csafetensors_init\<lparr>header_size := 35,
        tensors := [\<lparr>name = ''t'', dtype = CSAFETENSORS_DTYPE_UINT8, shape = [0],
                     data_offset_begin = 0, data_offset_end = 0\<rparr>],
        storage := 0x5000, storage_content := [], storage_size := 0\<rparr>)"
proof -
  have "JSON_NUMBER (Finite 0) \<notin> set [JSON_NUMBER (Finite (- (1 / 2)))]" by simp
  moreover have "json_object_get (JSON_OBJECT
            [(''dtype'', JSON_STRING ''U8''),
             (''shape'', JSON_ARRAY [JSON_NUMBER (Finite (- (1 / 2)))])]) ''data_offsets'' = None"
    by (simp add: strcmp_eq_def c_str_def)
  ultimately show ?thesis
    using neg_json neg_load [of "\<lambda>_. 0" csafetensors_init] by blast
qed


section \<open>Long names\<close>

lemma json_string_loop_replicate:
  assumes "c \<noteq> CHR 0x22" "\<not> (of_char c :: nat) < 0x20" "c \<noteq> CHR 0x5C"
  shows "json_string_loop str (replicate n c @ s) = json_string_loop (str @ replicate n c) s"
proof (induction n arbitrary: str)
  case 0
  show ?case by simp
next
  case (Suc n)
  have "json_string_loop str (replicate (Suc n) c @ s)
          = json_string_loop (str @ [c]) (replicate n c @ s)"
    using assms by simp
  also have "\<dots> = json_string_loop ((str @ [c]) @ replicate n c) s"
    by (rule Suc.IH)
  finally show ?case by simp
qed

lemma json_string_loop_long_prefix:
  "json_string_loop str (long_prefix @ s) = json_string_loop (str @ long_prefix) s"
  unfolding long_prefix_def by (rule json_string_loop_replicate) simp_all

lemma length_long_prefix: "length long_prefix = 5000"
  by (simp add: long_prefix_def)

lemma takeWhile_long_prefix:
  "takeWhile (\<lambda>c. c \<noteq> CHR 0x00) (long_prefix @ s)
     = long_prefix @ takeWhile (\<lambda>c. c \<noteq> CHR 0x00) s"
  by (rule takeWhile_append2) (simp add: long_prefix_def)

lemma long_prefix_Cons: "long_prefix = CHR ''a'' # replicate 4999 (CHR ''a'')"
proof -
  have "replicate (Suc 4999) (CHR ''a'') = CHR ''a'' # replicate 4999 (CHR ''a'')"
    by (rule replicate_Suc)
  then show ?thesis by (simp add: long_prefix_def)
qed

lemma long_prefix_neq_underscore: "long_prefix @ s \<noteq> CHR ''_'' # t"
  by (simp add: long_prefix_Cons)

lemma take_long_prefix: "take 4095 long_prefix = replicate 4095 (CHR ''a'')"
  by (simp add: long_prefix_def)

lemma takeWhile_replicate_a:
  "takeWhile (\<lambda>c. c \<noteq> CHR 0x00) (replicate n (CHR ''a'')) = replicate n (CHR ''a'')"
  by (simp add: takeWhile_eq_all_conv)

lemma replicate_neq_long: "replicate 4095 (CHR ''a'') \<noteq> long_prefix @ s"
proof
  assume "replicate 4095 (CHR ''a'') = long_prefix @ s"
  then have "length (replicate 4095 (CHR ''a'')) = length (long_prefix @ s)" by simp
  then show False by (simp add: length_long_prefix)
qed

lemmas long_eval =
  json_string_loop_long_prefix length_long_prefix takeWhile_long_prefix
  long_prefix_neq_underscore take_long_prefix takeWhile_replicate_a replicate_neq_long

lemma long_json:
  "json_parse_value long_header =
     Inr (JSON_OBJECT
       [(long_name_x, JSON_OBJECT
            [(''dtype'', JSON_STRING ''U8''),
             (''shape'', JSON_ARRAY [JSON_NUMBER (Finite 1)]),
             (''data_offsets'', JSON_ARRAY [JSON_NUMBER (Finite 0), JSON_NUMBER (Finite 1)])]),
        (long_name_y, JSON_OBJECT
            [(''dtype'', JSON_STRING ''U8''),
             (''shape'', JSON_ARRAY [JSON_NUMBER (Finite 1)]),
             (''data_offsets'', JSON_ARRAY [JSON_NUMBER (Finite 1), JSON_NUMBER (Finite 2)])])],
       [])"
  unfolding long_header_def long_name_x_def long_name_y_def
  by (simp add: json_eval strtod_eval long_eval)

lemma long_length: "length long_file = 10115"
  by (simp add: long_file_def long_header_def long_name_x_def long_name_y_def length_long_prefix)

lemma long_read: "read_u64_le long_file = 10105"
  by (simp add: read_u64_le_def long_file_def)

lemma long_take: "take 10105 (drop 8 long_file) = long_header"
proof -
  have "length long_header = 10105"
    by (simp add: long_header_def long_name_x_def long_name_y_def length_long_prefix)
  then show ?thesis by (simp add: long_file_def)
qed

lemma long_parse:
  "parse_safetensors_header oor long_file csafetensors_init =
     (True, csafetensors_init\<lparr>header_size := 10105,
        tensors := [\<lparr>name = replicate 4095 (CHR ''a''), dtype = CSAFETENSORS_DTYPE_UINT8,
                     shape = [1], data_offset_begin = 0, data_offset_end = 1\<rparr>,
                    \<lparr>name = replicate 4095 (CHR ''a''), dtype = CSAFETENSORS_DTYPE_UINT8,
                     shape = [1], data_offset_begin = 1, data_offset_end = 2\<rparr>]\<rparr>)"
  by (simp add: parse_safetensors_header_def long_length long_read long_take long_json
        CSAFETENSORS_MAX_JSON_SIZE_def)
     (simp add: long_name_x_def long_name_y_def long_eval
        parse_tensor_def parse_dtype_string_def CSAFETENSORS_MAX_DIM_def
        CSAFETENSORS_MAX_STRING_LEN_def strncpy_zeroed_def double_to_size_t_def
        strcmp_eq_def c_str_def Let_def csafetensors_init_def)

lemma long_load:
  "csafetensors_load_from_memory oor 0x5000 0x1000 long_file st0 =
     (CSAFETENSORS_SUCCESS,
      csafetensors_init\<lparr>header_size := 10105,
        tensors := [\<lparr>name = replicate 4095 (CHR ''a''), dtype = CSAFETENSORS_DTYPE_UINT8,
                     shape = [1], data_offset_begin = 0, data_offset_end = 1\<rparr>,
                    \<lparr>name = replicate 4095 (CHR ''a''), dtype = CSAFETENSORS_DTYPE_UINT8,
                     shape = [1], data_offset_begin = 1, data_offset_end = 2\<rparr>],
        storage := 0x5000, storage_content := [CHR 0x01, CHR 0x02], storage_size := 2\<rparr>)"
proof -
  have d: "drop 10113 long_file = [CHR 0x01, CHR 0x02]"
  proof -
    have "length long_header = 10105"
      by (simp add: long_header_def long_name_x_def long_name_y_def length_long_prefix)
    then show ?thesis by (simp add: long_file_def)
  qed
  show ?thesis
    by (simp add: csafetensors_load_from_memory_def long_parse long_length NULL_def)
       (simp add: d csafetensors_init_def)
qed

lemma parse_tensor_name:
  assumes "parse_tensor oor nm obj = Inr t"
  shows "name t = take (CSAFETENSORS_MAX_STRING_LEN - 1) (c_str nm)"
  using assms
  by (auto simp: parse_tensor_def Let_def strncpy_zeroed_def
           split: if_splits option.splits)

lemma metadata_loop_entries:
  assumes "m \<in> set (metadata_loop ps n md)"
  shows "m \<in> set md \<or>
         (\<exists>k v. (k, JSON_STRING v) \<in> set ps \<and>
            m = \<lparr>meta_key = take (CSAFETENSORS_MAX_STRING_LEN - 1) (c_str k),
                 meta_value = take (CSAFETENSORS_MAX_STRING_LEN - 1) (c_str v)\<rparr>)"
  using assms
proof (induction ps arbitrary: md)
  case Nil
  then show ?case by simp
next
  case (Cons p ps)
  obtain mk mv where p: "p = (mk, mv)" by (cases p)
  show ?case
  proof (cases "length md < n")
    case False
    with Cons.prems p show ?thesis by simp
  next
    case True
    show ?thesis
    proof (cases "\<exists>v. mv = JSON_STRING v")
      case False
      with Cons.prems p True have "m \<in> set (metadata_loop ps n md)"
        by (cases mv) simp_all
      from Cons.IH [OF this] show ?thesis by auto
    next
      case True
      then obtain v where v: "mv = JSON_STRING v" by blast
      let ?e = "\<lparr>meta_key = take (CSAFETENSORS_MAX_STRING_LEN - 1) (c_str mk),
                   meta_value = take (CSAFETENSORS_MAX_STRING_LEN - 1) (c_str v)\<rparr>"
      from Cons.prems p v \<open>length md < n\<close>
      have "m \<in> set (metadata_loop ps n (md @ [?e]))"
        by (simp add: strncpy_zeroed_def)
      from Cons.IH [OF this] show ?thesis using p v by auto
    qed
  qed
qed

lemma metadata_loop_room:
  assumes "length md + length ps \<le> n"
  shows "metadata_loop ps n md =
           md @ concat (map (\<lambda>p. case snd p of
                                 JSON_STRING v \<Rightarrow>
                                   [\<lparr>meta_key = take (CSAFETENSORS_MAX_STRING_LEN - 1) (c_str (fst p)),
                                     meta_value = take (CSAFETENSORS_MAX_STRING_LEN - 1) (c_str v)\<rparr>]
                               | _ \<Rightarrow> []) ps)"
  using assms
proof (induction ps arbitrary: md)
  case Nil
  then show ?case by simp
next
  case (Cons p ps)
  obtain mk mv where p: "p = (mk, mv)" by (cases p)
  from Cons.prems have lt: "length md < n" by simp
  show ?case
  proof (cases "\<exists>v. mv = JSON_STRING v")
    case False
    from Cons.prems have "length md + length ps \<le> n" by simp
    from Cons.IH [OF this] False lt p show ?thesis by (cases mv) simp_all
  next
    case True
    then obtain v where v: "mv = JSON_STRING v" by blast
    let ?e = "\<lparr>meta_key = take (CSAFETENSORS_MAX_STRING_LEN - 1) (c_str mk),
                 meta_value = take (CSAFETENSORS_MAX_STRING_LEN - 1) (c_str v)\<rparr>"
    from Cons.prems have "length (md @ [?e]) + length ps \<le> n" by simp
    from Cons.IH [OF this] lt p v show ?thesis by (simp add: strncpy_zeroed_def)
  qed
qed

lemma takeWhile_long_key: "takeWhile (\<lambda>c. c \<noteq> CHR 0x00) long_key = long_key"
  by (simp add: long_key_def takeWhile_eq_all_conv)

lemma takeWhile_long_value: "takeWhile (\<lambda>c. c \<noteq> CHR 0x00) long_value = long_value"
  by (simp add: long_value_def takeWhile_eq_all_conv)

lemma json_string_loop_long_key:
  "json_string_loop str (long_key @ s) = json_string_loop (str @ long_key) s"
  unfolding long_key_def by (rule json_string_loop_replicate) simp_all

lemma json_string_loop_long_value:
  "json_string_loop str (long_value @ s) = json_string_loop (str @ long_value) s"
  unfolding long_value_def by (rule json_string_loop_replicate) simp_all

lemma length_long_key: "length long_key = 5000" "length long_value = 5000"
  by (simp_all add: long_key_def long_value_def)

lemma take_long_key:
  "take 4095 long_key = replicate 4095 (CHR ''k'')"
  "take 4095 long_value = replicate 4095 (CHR ''v'')"
  by (simp_all add: long_key_def long_value_def)

lemma longmeta_json:
  "json_parse_value longmeta_header =
     Inr (JSON_OBJECT
       [(''__metadata__'', JSON_OBJECT [(long_key, JSON_STRING long_value)]),
        (''t'', JSON_OBJECT
            [(''dtype'', JSON_STRING ''U8''),
             (''shape'', JSON_ARRAY [JSON_NUMBER (Finite 1)]),
             (''data_offsets'', JSON_ARRAY [JSON_NUMBER (Finite 0), JSON_NUMBER (Finite 1)])])],
       [])"
  unfolding longmeta_header_def
  by (simp add: json_eval strtod_eval json_string_loop_long_key json_string_loop_long_value)

lemma longmeta_length: "length longmeta_file = 10085"
  by (simp add: longmeta_file_def longmeta_header_def length_long_key)

lemma longmeta_parse:
  "parse_safetensors_header oor longmeta_file csafetensors_init =
     (True, csafetensors_init\<lparr>header_size := 10076,
        tensors := [\<lparr>name = ''t'', dtype = CSAFETENSORS_DTYPE_UINT8, shape = [1],
                     data_offset_begin = 0, data_offset_end = 1\<rparr>],
        metadata := [\<lparr>meta_key = replicate 4095 (CHR ''k''),
                       meta_value = replicate 4095 (CHR ''v'')\<rparr>]\<rparr>)"
proof -
  have "length longmeta_header = 10076"
    by (simp add: longmeta_header_def length_long_key)
  then have t: "take 10076 (drop 8 longmeta_file) = longmeta_header"
    by (simp add: longmeta_file_def)
  have r: "read_u64_le longmeta_file = 10076"
    by (simp add: read_u64_le_def longmeta_file_def)
  show ?thesis
    by (simp add: parse_safetensors_header_def longmeta_length r t longmeta_json
          CSAFETENSORS_MAX_JSON_SIZE_def)
       (simp add: takeWhile_long_key takeWhile_long_value take_long_key
          parse_tensor_def parse_dtype_string_def CSAFETENSORS_MAX_DIM_def
          CSAFETENSORS_MAX_STRING_LEN_def strncpy_zeroed_def double_to_size_t_def
          strcmp_eq_def c_str_def Let_def csafetensors_init_def)
qed

lemma longmeta_load:
  "csafetensors_load_from_memory oor 0x5000 0x1000 longmeta_file st0 =
     (CSAFETENSORS_SUCCESS,
      csafetensors_init\<lparr>header_size := 10076,
        tensors := [\<lparr>name = ''t'', dtype = CSAFETENSORS_DTYPE_UINT8, shape = [1],
                     data_offset_begin = 0, data_offset_end = 1\<rparr>],
        metadata := [\<lparr>meta_key = replicate 4095 (CHR ''k''),
                       meta_value = replicate 4095 (CHR ''v'')\<rparr>],
        storage := 0x5000, storage_content := [CHR 0x07], storage_size := 1\<rparr>)"
proof -
  have d: "drop 10084 longmeta_file = [CHR 0x07]"
  proof -
    have "length longmeta_header = 10076"
      by (simp add: longmeta_header_def length_long_key)
    then show ?thesis by (simp add: longmeta_file_def)
  qed
  show ?thesis
    by (simp add: csafetensors_load_from_memory_def longmeta_parse longmeta_length NULL_def)
       (simp add: d csafetensors_init_def)
qed

lemma replicate_neq_long_key: "replicate 4095 (CHR ''k'') \<noteq> long_key"
proof
  assume "replicate 4095 (CHR ''k'') = long_key"
  then have "length (replicate 4095 (CHR ''k'')) = length long_key" by simp
  then show False by (simp add: length_long_key)
qed

text \<open>
  C9.  A tensor name is stored as the first 4095 bytes of the key, and each string pair
  of \<open>__metadata__\<close> is stored, in order, as the first 4095 bytes of its key and the
  first 4095 bytes of its value, without any error.  In the file \<open>long_file\<close>, whose
  two tensor names are 5001 bytes long and differ in the last byte, the load succeeds,
  \<open>csafetensors_get_tensor\<close> with either full name finds nothing, and both
  descriptors carry the same stored name, so that a lookup of the stored name finds the
  first one only.  In the file \<open>longmeta_file\<close>, whose metadata key and value are
  5000 bytes long, the load succeeds, the stored key and value are their first 4095
  bytes, and \<open>csafetensors_get_metadata\<close> finds nothing under the full key and the
  truncated value under the truncated key.
\<close>

theorem long_strings_are_truncated:
  "(parse_tensor oor nm obj = Inr t \<longrightarrow>
      name t = take (CSAFETENSORS_MAX_STRING_LEN - 1) (c_str nm))
   \<and> (length md + length ps \<le> n \<longrightarrow>
        metadata_loop ps n md =
           md @ concat (map (\<lambda>p. case snd p of
                                 JSON_STRING v \<Rightarrow>
                                   [\<lparr>meta_key = take (CSAFETENSORS_MAX_STRING_LEN - 1) (c_str (fst p)),
                                     meta_value = take (CSAFETENSORS_MAX_STRING_LEN - 1) (c_str v)\<rparr>]
                               | _ \<Rightarrow> []) ps))
   \<and> (\<forall>m \<in> set (metadata_loop ps n []).
        \<exists>k v. (k, JSON_STRING v) \<in> set ps \<and>
          meta_key m = take (CSAFETENSORS_MAX_STRING_LEN - 1) (c_str k) \<and>
          meta_value m = take (CSAFETENSORS_MAX_STRING_LEN - 1) (c_str v))
   \<and> CSAFETENSORS_MAX_STRING_LEN < length long_name_x
   \<and> long_name_x \<noteq> long_name_y
   \<and> fst (csafetensors_load_from_memory oor 0x5000 0x1000 long_file st0) = CSAFETENSORS_SUCCESS
   \<and> csafetensors_get_tensor
        (snd (csafetensors_load_from_memory oor 0x5000 0x1000 long_file st0)) long_name_x = None
   \<and> csafetensors_get_tensor
        (snd (csafetensors_load_from_memory oor 0x5000 0x1000 long_file st0)) long_name_y = None
   \<and> map name (tensors (snd (csafetensors_load_from_memory oor 0x5000 0x1000 long_file st0)))
        = [take (CSAFETENSORS_MAX_STRING_LEN - 1) long_name_x,
           take (CSAFETENSORS_MAX_STRING_LEN - 1) long_name_y]
   \<and> take (CSAFETENSORS_MAX_STRING_LEN - 1) long_name_x
        = take (CSAFETENSORS_MAX_STRING_LEN - 1) long_name_y
   \<and> map_option data_offset_begin
        (csafetensors_get_tensor
           (snd (csafetensors_load_from_memory oor 0x5000 0x1000 long_file st0))
           (take (CSAFETENSORS_MAX_STRING_LEN - 1) long_name_y)) = Some 0
   \<and> CSAFETENSORS_MAX_STRING_LEN < length long_key
   \<and> CSAFETENSORS_MAX_STRING_LEN < length long_value
   \<and> fst (csafetensors_load_from_memory oor 0x5000 0x1000 longmeta_file st0)
        = CSAFETENSORS_SUCCESS
   \<and> metadata (snd (csafetensors_load_from_memory oor 0x5000 0x1000 longmeta_file st0))
        = [\<lparr>meta_key = take (CSAFETENSORS_MAX_STRING_LEN - 1) long_key,
            meta_value = take (CSAFETENSORS_MAX_STRING_LEN - 1) long_value\<rparr>]
   \<and> length (take (CSAFETENSORS_MAX_STRING_LEN - 1) long_key) = 4095
   \<and> length (take (CSAFETENSORS_MAX_STRING_LEN - 1) long_value) = 4095
   \<and> csafetensors_get_metadata
        (snd (csafetensors_load_from_memory oor 0x5000 0x1000 longmeta_file st0)) long_key = None
   \<and> csafetensors_get_metadata
        (snd (csafetensors_load_from_memory oor 0x5000 0x1000 longmeta_file st0))
        (take (CSAFETENSORS_MAX_STRING_LEN - 1) long_key)
        = Some (take (CSAFETENSORS_MAX_STRING_LEN - 1) long_value)"
proof -
  have 1: "parse_tensor oor nm obj = Inr t \<longrightarrow>
      name t = take (CSAFETENSORS_MAX_STRING_LEN - 1) (c_str nm)"
    by (simp add: parse_tensor_name)
  have 16: "length md + length ps \<le> n \<longrightarrow>
        metadata_loop ps n md =
           md @ concat (map (\<lambda>p. case snd p of
                                 JSON_STRING v \<Rightarrow>
                                   [\<lparr>meta_key = take (CSAFETENSORS_MAX_STRING_LEN - 1) (c_str (fst p)),
                                     meta_value = take (CSAFETENSORS_MAX_STRING_LEN - 1) (c_str v)\<rparr>]
                               | _ \<Rightarrow> []) ps)"
    using metadata_loop_room [of md ps n] by blast
  have 2: "\<forall>m \<in> set (metadata_loop ps n []).
        \<exists>k v. (k, JSON_STRING v) \<in> set ps \<and>
          meta_key m = take (CSAFETENSORS_MAX_STRING_LEN - 1) (c_str k) \<and>
          meta_value m = take (CSAFETENSORS_MAX_STRING_LEN - 1) (c_str v)"
  proof
    fix m assume "m \<in> set (metadata_loop ps n [])"
    from metadata_loop_entries [OF this]
    obtain k v where "(k, JSON_STRING v) \<in> set ps"
      "m = \<lparr>meta_key = take (CSAFETENSORS_MAX_STRING_LEN - 1) (c_str k),
            meta_value = take (CSAFETENSORS_MAX_STRING_LEN - 1) (c_str v)\<rparr>"
      by auto
    then show "\<exists>k v. (k, JSON_STRING v) \<in> set ps \<and>
          meta_key m = take (CSAFETENSORS_MAX_STRING_LEN - 1) (c_str k) \<and>
          meta_value m = take (CSAFETENSORS_MAX_STRING_LEN - 1) (c_str v)"
      by (intro exI [of _ k] exI [of _ v]) simp
  qed
  have 3: "CSAFETENSORS_MAX_STRING_LEN < length long_name_x"
    by (simp add: CSAFETENSORS_MAX_STRING_LEN_def long_name_x_def length_long_prefix)
  have 4: "long_name_x \<noteq> long_name_y"
    by (simp add: long_name_x_def long_name_y_def)
  have t: "take (CSAFETENSORS_MAX_STRING_LEN - 1) long_name_x = replicate 4095 (CHR ''a'')"
    "take (CSAFETENSORS_MAX_STRING_LEN - 1) long_name_y = replicate 4095 (CHR ''a'')"
    by (simp_all add: CSAFETENSORS_MAX_STRING_LEN_def long_name_x_def long_name_y_def
          length_long_prefix take_long_prefix)
  have 5: "csafetensors_get_tensor
        (snd (csafetensors_load_from_memory oor 0x5000 0x1000 long_file st0)) long_name_x = None"
    "csafetensors_get_tensor
        (snd (csafetensors_load_from_memory oor 0x5000 0x1000 long_file st0)) long_name_y = None"
    by (simp_all add: long_load csafetensors_get_tensor_def strcmp_eq_def c_str_def
          long_name_x_def long_name_y_def takeWhile_replicate_a takeWhile_long_prefix
          replicate_neq_long)
  have 6: "map_option data_offset_begin
        (csafetensors_get_tensor
           (snd (csafetensors_load_from_memory oor 0x5000 0x1000 long_file st0))
           (take (CSAFETENSORS_MAX_STRING_LEN - 1) long_name_y)) = Some 0"
    unfolding t by (simp add: long_load csafetensors_get_tensor_def strcmp_eq_def)
  have 7: "fst (csafetensors_load_from_memory oor 0x5000 0x1000 long_file st0)
             = CSAFETENSORS_SUCCESS"
    by (simp add: long_load)
  have 8: "map name (tensors (snd (csafetensors_load_from_memory oor 0x5000 0x1000 long_file st0)))
        = [take (CSAFETENSORS_MAX_STRING_LEN - 1) long_name_x,
           take (CSAFETENSORS_MAX_STRING_LEN - 1) long_name_y]"
    unfolding t by (simp add: long_load)
  have 9: "take (CSAFETENSORS_MAX_STRING_LEN - 1) long_name_x
        = take (CSAFETENSORS_MAX_STRING_LEN - 1) long_name_y"
    unfolding t by (rule refl)
  have k: "take (CSAFETENSORS_MAX_STRING_LEN - 1) long_key = replicate 4095 (CHR ''k'')"
    "take (CSAFETENSORS_MAX_STRING_LEN - 1) long_value = replicate 4095 (CHR ''v'')"
    by (simp_all add: CSAFETENSORS_MAX_STRING_LEN_def take_long_key)
  have 10: "CSAFETENSORS_MAX_STRING_LEN < length long_key"
    "CSAFETENSORS_MAX_STRING_LEN < length long_value"
    by (simp_all add: CSAFETENSORS_MAX_STRING_LEN_def length_long_key)
  have 11: "fst (csafetensors_load_from_memory oor 0x5000 0x1000 longmeta_file st0)
        = CSAFETENSORS_SUCCESS"
    by (simp add: longmeta_load)
  have 12: "metadata (snd (csafetensors_load_from_memory oor 0x5000 0x1000 longmeta_file st0))
        = [\<lparr>meta_key = take (CSAFETENSORS_MAX_STRING_LEN - 1) long_key,
            meta_value = take (CSAFETENSORS_MAX_STRING_LEN - 1) long_value\<rparr>]"
    unfolding k by (simp add: longmeta_load)
  have 13: "length (take (CSAFETENSORS_MAX_STRING_LEN - 1) long_key) = 4095"
    "length (take (CSAFETENSORS_MAX_STRING_LEN - 1) long_value) = 4095"
    unfolding k by simp_all
  have 14: "csafetensors_get_metadata
        (snd (csafetensors_load_from_memory oor 0x5000 0x1000 longmeta_file st0)) long_key = None"
    by (simp add: longmeta_load csafetensors_get_metadata_def strcmp_eq_def c_str_def
          takeWhile_long_key replicate_neq_long_key takeWhile_eq_all_conv)
  have 15: "csafetensors_get_metadata
        (snd (csafetensors_load_from_memory oor 0x5000 0x1000 longmeta_file st0))
        (take (CSAFETENSORS_MAX_STRING_LEN - 1) long_key)
        = Some (take (CSAFETENSORS_MAX_STRING_LEN - 1) long_value)"
    unfolding k by (simp add: longmeta_load csafetensors_get_metadata_def strcmp_eq_def)
  from 1 16 2 3 4 5 6 7 8 9 10 11 12 13 14 15 show ?thesis
    by blast
qed

text \<open>
  The truncation at a short name, where it copies the string whole, and at the
  metadata pair of \<open>longmeta_file\<close>, where it cuts both strings.
\<close>

theorem long_strings_are_truncated_witness:
  "parse_tensor (\<lambda>_. 0) ''n''
      (JSON_OBJECT [(''dtype'', JSON_STRING ''U8''), (''shape'', JSON_ARRAY []),
         (''data_offsets'', JSON_ARRAY [JSON_NUMBER (Finite 0), JSON_NUMBER (Finite 1)])])
     = Inr \<lparr>name = ''n'', dtype = CSAFETENSORS_DTYPE_UINT8, shape = [],
            data_offset_begin = 0, data_offset_end = 1\<rparr>
   \<and> ''n'' = take (CSAFETENSORS_MAX_STRING_LEN - 1) (c_str ''n'')
   \<and> metadata_loop [(long_key, JSON_STRING long_value), (''x'', JSON_NULL)] 2 []
       = [\<lparr>meta_key = replicate 4095 (CHR ''k''), meta_value = replicate 4095 (CHR ''v'')\<rparr>]
   \<and> metadata_loop [(''k'', JSON_STRING ''v'')] 1 [] = [\<lparr>meta_key = ''k'', meta_value = ''v''\<rparr>]
   \<and> (\<exists>k v. (k, JSON_STRING v) \<in> set [(''k'', JSON_STRING ''v'')] \<and>
          ''k'' = take (CSAFETENSORS_MAX_STRING_LEN - 1) (c_str k) \<and>
          ''v'' = take (CSAFETENSORS_MAX_STRING_LEN - 1) (c_str v))"
proof -
  let ?obj = "JSON_OBJECT [(''dtype'', JSON_STRING ''U8''), (''shape'', JSON_ARRAY []),
         (''data_offsets'', JSON_ARRAY [JSON_NUMBER (Finite 0), JSON_NUMBER (Finite 1)])]"
  let ?t = "\<lparr>name = ''n'', dtype = CSAFETENSORS_DTYPE_UINT8, shape = [],
            data_offset_begin = 0, data_offset_end = 1\<rparr>"
  have p: "parse_tensor (\<lambda>_. 0) ''n'' ?obj = Inr ?t"
    by (simp add: parse_tensor_def parse_dtype_string_def CSAFETENSORS_MAX_DIM_def
          CSAFETENSORS_MAX_STRING_LEN_def strncpy_zeroed_def strcmp_eq_def c_str_def
          double_to_size_t_def)
  have m: "metadata_loop [(''k'', JSON_STRING ''v'')] 1 [] = [\<lparr>meta_key = ''k'', meta_value = ''v''\<rparr>]"
    by (simp add: CSAFETENSORS_MAX_STRING_LEN_def strncpy_zeroed_def c_str_def)
  note T = long_strings_are_truncated
    [where oor = "\<lambda>_. 0" and nm = "''n''" and obj = ?obj and t = ?t
       and ps = "[(''k'', JSON_STRING ''v'')]" and n = 1]
  from mp [OF conjunct1 [OF T] p]
  have a: "''n'' = take (CSAFETENSORS_MAX_STRING_LEN - 1) (c_str ''n'')"
    by simp
  from conjunct1 [OF conjunct2 [OF conjunct2 [OF T]]]
  have "\<forall>m \<in> set (metadata_loop [(''k'', JSON_STRING ''v'')] 1 []).
        \<exists>k v. (k, JSON_STRING v) \<in> set [(''k'', JSON_STRING ''v'')] \<and>
          meta_key m = take (CSAFETENSORS_MAX_STRING_LEN - 1) (c_str k) \<and>
          meta_value m = take (CSAFETENSORS_MAX_STRING_LEN - 1) (c_str v)" .
  then have b: "\<exists>k v. (k, JSON_STRING v) \<in> set [(''k'', JSON_STRING ''v'')] \<and>
          ''k'' = take (CSAFETENSORS_MAX_STRING_LEN - 1) (c_str k) \<and>
          ''v'' = take (CSAFETENSORS_MAX_STRING_LEN - 1) (c_str v)"
    unfolding m by simp
  note L = long_strings_are_truncated
    [where md = "[]" and ps = "[(long_key, JSON_STRING long_value), (''x'', JSON_NULL)]"
       and n = 2]
  have "length ([] :: csafetensors_metadata list)
          + length [(long_key, JSON_STRING long_value), (''x'', JSON_NULL)] \<le> 2"
    by simp
  from mp [OF conjunct1 [OF conjunct2 [OF L]] this]
  have c: "metadata_loop [(long_key, JSON_STRING long_value), (''x'', JSON_NULL)] 2 []
       = [\<lparr>meta_key = replicate 4095 (CHR ''k''), meta_value = replicate 4095 (CHR ''v'')\<rparr>]"
    by (simp add: c_str_def takeWhile_long_key takeWhile_long_value take_long_key
          CSAFETENSORS_MAX_STRING_LEN_def)
  from p a c m b show ?thesis by blast
qed


section \<open>Distinct keys\<close>

lemma json_parse_string_result:
  "json_parse_string s = Inr (v, r) \<Longrightarrow> keys_distinct v"
  by (auto simp: json_parse_string_def split: list.splits if_splits sum.splits prod.splits)

lemma json_parse_number_result:
  "json_parse_number s = Inr (v, r) \<Longrightarrow> keys_distinct v"
  by (auto simp: json_parse_number_def Let_def split: sum.splits if_splits)

lemma has_key_iff: "has_key pairs k \<longleftrightarrow> c_str k \<in> set (map (\<lambda>p. c_str (fst p)) pairs)"
  by (force simp: has_key_def list_ex_iff strcmp_eq_def)

lemma keys_distinct_snoc:
  assumes "keys_distinct (JSON_OBJECT pairs)" "\<not> has_key pairs k" "keys_distinct v"
  shows "keys_distinct (JSON_OBJECT (pairs @ [(k, v)]))"
  using assms by (auto simp: has_key_iff)

lemma json_parse_keys_distinct_all:
  "\<forall>v r. json_parse_value s0 = Inr (v, r) \<longrightarrow> keys_distinct v"
  "\<forall>v r. json_parse_array s1 = Inr (v, r) \<longrightarrow> keys_distinct v"
  "\<forall>v r. json_array_loop items s2 = Inr (v, r) \<longrightarrow>
           (\<forall>i\<in>set items. keys_distinct i) \<longrightarrow> keys_distinct v"
  "\<forall>v r. json_parse_object s3 = Inr (v, r) \<longrightarrow> keys_distinct v"
  "\<forall>v r. json_object_loop pairs s4 = Inr (v, r) \<longrightarrow>
           keys_distinct (JSON_OBJECT pairs) \<longrightarrow> keys_distinct v"
proof (induction s0 and s1 and items s2 and s3 and pairs s4
       rule: json_parse_value_json_parse_array_json_array_loop_json_parse_object_json_object_loop.induct)
  case (1 s0)
  show ?case
  proof (intro allI impI)
    fix v r
    assume a: "json_parse_value s0 = Inr (v, r)"
    define x where "x = json_skip_whitespace s0"
    from a have b: "(case x of
        [] \<Rightarrow> Inl Unexpected_end_of_input
      | c # r \<Rightarrow>
          if c = CHR ''n'' then
            (case json_match x ''null'' of
               Some r' \<Rightarrow> Inr (JSON_NULL, r')
             | None \<Rightarrow> Inl Invalid_JSON_value)
          else if c = CHR ''t'' then
            (case json_match x ''true'' of
               Some r' \<Rightarrow> Inr (JSON_BOOL True, r')
             | None \<Rightarrow> Inl Invalid_JSON_value)
          else if c = CHR ''f'' then
            (case json_match x ''false'' of
               Some r' \<Rightarrow> Inr (JSON_BOOL False, r')
             | None \<Rightarrow> Inl Invalid_JSON_value)
          else if c = CHR 0x22 then json_parse_string x
          else if c = CHR ''['' then json_parse_array x
          else if c = CHR ''{'' then json_parse_object x
          else if c = CHR ''-'' \<or> is_digit c then json_parse_number x
          else Inl Invalid_JSON_value) = Inr (v, r)"
      unfolding x_def by (simp add: json_parse_value.simps [of s0] Let_def)
    then obtain c t where xc: "x = c # t" by (cases x) auto
    consider (n) "c = CHR ''n''" | (t) "c = CHR ''t''" | (f) "c = CHR ''f''"
      | (q) "c = CHR 0x22" | (a) "c = CHR ''[''" | (o) "c = CHR ''{''"
      | (other) "c \<noteq> CHR ''n''" "c \<noteq> CHR ''t''" "c \<noteq> CHR ''f''" "c \<noteq> CHR 0x22"
                "c \<noteq> CHR ''[''" "c \<noteq> CHR ''{''"
      by blast
    then show "keys_distinct v"
    proof cases
      case n
      with b xc show ?thesis by (auto split: option.splits)
    next
      case t
      with b xc show ?thesis by (auto split: option.splits)
    next
      case f
      with b xc show ?thesis by (auto split: option.splits)
    next
      case q
      with b xc have "json_parse_string x = Inr (v, r)" by simp
      then show ?thesis by (rule json_parse_string_result)
    next
      case a
      with b xc have "json_parse_array x = Inr (v, r)" by simp
      moreover have "\<forall>v r. json_parse_array x = Inr (v, r) \<longrightarrow> keys_distinct v"
        by (rule "1.IH"(1) [OF x_def xc]) (use a in simp_all)
      ultimately show ?thesis by blast
    next
      case o
      with b xc have "json_parse_object x = Inr (v, r)" by simp
      moreover have "\<forall>v r. json_parse_object x = Inr (v, r) \<longrightarrow> keys_distinct v"
        by (rule "1.IH"(2) [OF x_def xc]) (use o in simp_all)
      ultimately show ?thesis by blast
    next
      case other
      with b xc have "json_parse_number x = Inr (v, r)"
        by (auto split: if_splits)
      then show ?thesis by (rule json_parse_number_result)
    qed
  qed
next
  case (2 s)
  show ?case
  proof (intro allI impI)
    fix v r
    assume a: "json_parse_array s = Inr (v, r)"
    note a' = a [unfolded json_parse_array.simps [of s]]
    from a' obtain t where s: "s = CHR ''['' # t"
      by (cases s) (auto split: if_splits)
    define x where "x = json_skip_whitespace t"
    show "keys_distinct v"
    proof (cases x)
      case Nil
      with a' s have "json_array_loop [] x = Inr (v, r)"
        by (simp add: Let_def x_def [symmetric])
      moreover have "\<forall>v r. json_array_loop [] x = Inr (v, r) \<longrightarrow>
           (\<forall>i\<in>set []. keys_distinct i) \<longrightarrow> keys_distinct v"
        by (rule "2.IH"(1) [OF s _ x_def Nil]) simp
      ultimately show ?thesis by simp
    next
      case (Cons d r2)
      show ?thesis
      proof (cases "d = CHR '']''")
        case True
        with a' s Cons show ?thesis by (auto simp: Let_def x_def [symmetric])
      next
        case False
        with a' s Cons have "json_array_loop [] x = Inr (v, r)"
          by (simp add: Let_def x_def [symmetric])
        moreover have "\<forall>v r. json_array_loop [] x = Inr (v, r) \<longrightarrow>
           (\<forall>i\<in>set []. keys_distinct i) \<longrightarrow> keys_distinct v"
          by (rule "2.IH"(2) [OF s _ x_def Cons False]) simp
        ultimately show ?thesis by simp
      qed
    qed
  qed
next
  case (3 items s)
  show ?case
  proof (intro allI impI)
    fix v r
    assume a: "json_array_loop items s = Inr (v, r)"
      and kd: "\<forall>i\<in>set items. keys_distinct i"
    note a' = a [unfolded json_array_loop.simps [of items s]]
    from a' obtain item r0 where p: "json_parse_value s = Inr (item, r0)"
      by (cases "json_parse_value s") auto
    from "3.IH"(1) p have ki: "keys_distinct item" by blast
    from a' p obtain c r1 where w: "json_skip_whitespace r0 = c # r1"
      by (cases "json_skip_whitespace r0") auto
    show "keys_distinct v"
    proof (cases "c = CHR '']''")
      case True
      with a' p w have "v = JSON_ARRAY (items @ [item])" by simp
      with kd ki show ?thesis by simp
    next
      case False
      with a' p w have c: "c = CHR '',''" by (auto split: if_splits)
      with a' p w have "json_array_loop (items @ [item]) (json_skip_whitespace r1) = Inr (v, r)"
        by simp
      moreover have "\<forall>v r. json_array_loop (items @ [item]) (json_skip_whitespace r1) = Inr (v, r)
          \<longrightarrow> (\<forall>i\<in>set (items @ [item]). keys_distinct i) \<longrightarrow> keys_distinct v"
        by (rule "3.IH"(2) [OF p _ w False]) (use c in simp_all)
      ultimately show ?thesis using kd ki by simp
    qed
  qed
next
  case (4 s)
  show ?case
  proof (intro allI impI)
    fix v r
    assume a: "json_parse_object s = Inr (v, r)"
    note a' = a [unfolded json_parse_object.simps [of s]]
    from a' obtain t where s: "s = CHR ''{'' # t"
      by (cases s) (auto split: if_splits)
    define x where "x = json_skip_whitespace t"
    show "keys_distinct v"
    proof (cases x)
      case Nil
      with a' s have "json_object_loop [] x = Inr (v, r)"
        by (simp add: Let_def x_def [symmetric])
      moreover have "\<forall>v r. json_object_loop [] x = Inr (v, r) \<longrightarrow>
           keys_distinct (JSON_OBJECT []) \<longrightarrow> keys_distinct v"
        by (rule "4.IH"(1) [OF s _ x_def Nil]) simp
      ultimately show ?thesis by simp
    next
      case (Cons d r2)
      show ?thesis
      proof (cases "d = CHR ''}''")
        case True
        with a' s Cons show ?thesis by (auto simp: Let_def x_def [symmetric])
      next
        case False
        with a' s Cons have "json_object_loop [] x = Inr (v, r)"
          by (simp add: Let_def x_def [symmetric])
        moreover have "\<forall>v r. json_object_loop [] x = Inr (v, r) \<longrightarrow>
           keys_distinct (JSON_OBJECT []) \<longrightarrow> keys_distinct v"
          by (rule "4.IH"(2) [OF s _ x_def Cons False]) simp
        ultimately show ?thesis by simp
      qed
    qed
  qed
next
  case (5 pairs s)
  show ?case
  proof (intro allI impI)
    fix v r
    assume a: "json_object_loop pairs s = Inr (v, r)"
      and kd: "keys_distinct (JSON_OBJECT pairs)"
    note a' = a [unfolded json_object_loop.simps [of pairs s] Let_def]
    from a' obtain t where s: "s = CHR 0x22 # t"
      by (cases s) (auto split: if_splits)
    from a' s obtain kv r0 where ps: "json_parse_string s = Inr (kv, r0)"
      by (cases "json_parse_string s") auto
    define key where "key = data_string kv"
    from a' s ps obtain c r1 where w: "json_skip_whitespace r0 = c # r1"
      by (cases "json_skip_whitespace r0") auto
    from a' s ps w have c: "c = CHR '':''" by (auto split: if_splits)
    from a' s ps w c obtain val r2 where pv: "json_parse_value r1 = Inr (val, r2)"
      by (cases "json_parse_value r1") auto
    have "\<forall>v r. json_parse_value r1 = Inr (v, r) \<longrightarrow> keys_distinct v"
      by (rule "5.IH"(1) [OF s _ ps refl key_def w]) (use c in simp_all)
    with pv have kval: "keys_distinct val" by blast
    from a' s ps w c pv have nk: "\<not> has_key pairs key"
      by (auto simp: Let_def key_def split: if_splits)
    from a' s ps w c pv nk obtain d r3 where w2: "json_skip_whitespace r2 = d # r3"
      by (cases "json_skip_whitespace r2") (auto simp: Let_def key_def)
    have kd': "keys_distinct (JSON_OBJECT (pairs @ [(key, val)]))"
      using kd nk kval by (rule keys_distinct_snoc)
    show "keys_distinct v"
    proof (cases "d = CHR ''}''")
      case True
      with a' s ps w c pv nk w2 have "v = JSON_OBJECT (pairs @ [(key, val)])"
        by (simp add: Let_def key_def)
      with kd' show ?thesis by simp
    next
      case False
      with a' s ps w c pv nk w2 have d: "d = CHR '',''"
        by (auto simp: Let_def key_def split: if_splits)
      with a' s ps w c pv nk w2
      have "json_object_loop (pairs @ [(key, val)]) (json_skip_whitespace r3) = Inr (v, r)"
        by (simp add: Let_def key_def)
      moreover
      have "\<forall>v r. json_object_loop (pairs @ [(key, val)]) (json_skip_whitespace r3) = Inr (v, r)
          \<longrightarrow> keys_distinct (JSON_OBJECT (pairs @ [(key, val)])) \<longrightarrow> keys_distinct v"
        by (rule "5.IH"(2) [OF s _ ps refl key_def w _ pv refl nk w2 False]) (use c d in simp_all)
      ultimately show ?thesis using kd' by blast
    qed
  qed
qed

lemma json_parse_value_keys_distinct:
  "json_parse_value s = Inr (v, r) \<Longrightarrow> keys_distinct v"
  using json_parse_keys_distinct_all(1) by blast

lemma json_object_loop_duplicate:
  assumes "json_parse_string s = Inr (kv, r0)" "json_skip_whitespace r0 = CHR '':'' # r1"
    "json_parse_value r1 = Inr (val, r2)" "has_key pairs (data_string kv)"
  shows "json_object_loop pairs s = Inl Duplicate_key_in_object"
proof -
  from assms(1) obtain t where "s = CHR 0x22 # t"
    by (cases s) (auto simp: json_parse_string_def split: if_splits)
  with assms show ?thesis
    by (simp add: json_object_loop.simps [of pairs "CHR 0x22 # t"] Let_def)
qed

lemma take_untruncated:
  assumes "untruncated (take (CSAFETENSORS_MAX_STRING_LEN - 1) xs)"
  shows "take (CSAFETENSORS_MAX_STRING_LEN - 1) xs = xs"
  using assms by (simp add: untruncated_def min_def split: if_splits)

lemma metadata_loop_distinct:
  assumes "distinct (map (\<lambda>p. c_str (fst p)) ps)"
    "distinct (filter untruncated (map meta_key md))"
    "\<forall>m\<in>set md. untruncated (meta_key m) \<longrightarrow> meta_key m \<notin> (\<lambda>p. c_str (fst p)) ` set ps"
  shows "distinct (filter untruncated (map meta_key (metadata_loop ps n md)))"
  using assms
proof (induction ps arbitrary: md)
  case Nil
  then show ?case by simp
next
  case (Cons p ps)
  obtain mk mv where p: "p = (mk, mv)" by (cases p)
  from Cons.prems(1) p have d: "distinct (map (\<lambda>p. c_str (fst p)) ps)"
    and nk: "c_str mk \<notin> (\<lambda>p. c_str (fst p)) ` set ps"
    by simp_all
  from Cons.prems(3) p
  have old: "\<forall>m\<in>set md. untruncated (meta_key m) \<longrightarrow>
               meta_key m \<noteq> c_str mk \<and> meta_key m \<notin> (\<lambda>p. c_str (fst p)) ` set ps"
    by simp
  show ?case
  proof (cases "length md < n")
    case False
    with Cons.prems(2) p show ?thesis by simp
  next
    case True
    show ?thesis
    proof (cases "\<exists>v. mv = JSON_STRING v")
      case False
      with True p have "metadata_loop (p # ps) n md = metadata_loop ps n md"
        by (cases mv) simp_all
      moreover have "distinct (filter untruncated (map meta_key (metadata_loop ps n md)))"
        using d Cons.prems(2) old by (intro Cons.IH) simp_all
      ultimately show ?thesis by simp
    next
      case True
      then obtain v where v: "mv = JSON_STRING v" by blast
      let ?k = "take (CSAFETENSORS_MAX_STRING_LEN - 1) (c_str mk)"
      let ?e = "\<lparr>meta_key = ?k,
                   meta_value = take (CSAFETENSORS_MAX_STRING_LEN - 1) (c_str v)\<rparr>"
      from p v \<open>length md < n\<close>
      have step: "metadata_loop (p # ps) n md = metadata_loop ps n (md @ [?e])"
        by (simp add: strncpy_zeroed_def)
      have k: "untruncated ?k \<Longrightarrow> ?k = c_str mk"
        by (rule take_untruncated)
      have 2: "distinct (filter untruncated (map meta_key (md @ [?e])))"
        using Cons.prems(2) old k by auto
      have 3: "\<forall>m\<in>set (md @ [?e]). untruncated (meta_key m) \<longrightarrow>
                 meta_key m \<notin> (\<lambda>p. c_str (fst p)) ` set ps"
        using old k nk by auto
      have "distinct (filter untruncated (map meta_key (metadata_loop ps n (md @ [?e]))))"
        using d 2 3 by (rule Cons.IH)
      with step show ?thesis by simp
    qed
  qed
qed

lemma header_loop_distinct:
  assumes "header_loop oor ps nt nm ts md = Inr (ts', md')"
    "distinct (map (\<lambda>p. c_str (fst p)) ps)"
    "\<forall>p\<in>set ps. keys_distinct (snd p)"
    "distinct (filter untruncated (map name ts))"
    "\<forall>t\<in>set ts. untruncated (name t) \<longrightarrow> name t \<notin> (\<lambda>p. c_str (fst p)) ` set ps"
    "distinct (filter untruncated (map meta_key md))"
    "md = [] \<or> (\<forall>p\<in>set ps. \<not> strcmp_eq (fst p) ''__metadata__'')"
  shows "distinct (filter untruncated (map name ts')) \<and>
         distinct (filter untruncated (map meta_key md'))"
  using assms
proof (induction ps arbitrary: ts md)
  case Nil
  then show ?case by simp
next
  case (Cons p ps)
  obtain k v where p: "p = (k, v)" by (cases p)
  from Cons.prems(2) p have d: "distinct (map (\<lambda>p. c_str (fst p)) ps)"
    and nk: "c_str k \<notin> (\<lambda>p. c_str (fst p)) ` set ps"
    by simp_all
  from Cons.prems(3) p have kd: "\<forall>p\<in>set ps. keys_distinct (snd p)" and kv: "keys_distinct v"
    by simp_all
  from Cons.prems(5) p
  have old: "\<forall>t\<in>set ts. untruncated (name t) \<longrightarrow>
               name t \<noteq> c_str k \<and> name t \<notin> (\<lambda>p. c_str (fst p)) ` set ps"
    by simp
  then have old': "\<forall>t\<in>set ts. untruncated (name t) \<longrightarrow>
               name t \<notin> (\<lambda>p. c_str (fst p)) ` set ps"
    by blast
  show ?case
  proof (cases "strcmp_eq k ''__metadata__''")
    case True
    with Cons.prems(7) p have md: "md = []" by auto
    have nometa: "\<forall>p\<in>set ps. \<not> strcmp_eq (fst p) ''__metadata__''"
    proof (intro ballI notI)
      fix q assume q: "q \<in> set ps" and "strcmp_eq (fst q) ''__metadata__''"
      with True have "c_str k = c_str (fst q)" by (simp add: strcmp_eq_def)
      with q have "c_str k \<in> (\<lambda>p. c_str (fst p)) ` set ps" by (simp add: image_iff) blast
      with nk show False by blast
    qed
    show ?thesis
    proof (cases "\<exists>m. v = JSON_OBJECT m")
      case False
      with True p Cons.prems(1)
      have "header_loop oor ps nt nm ts md = Inr (ts', md')"
        by (cases v) simp_all
      then show ?thesis
        using d kd Cons.prems(4) old' Cons.prems(6) nometa by (intro Cons.IH) simp_all
    next
      case m: True
      then obtain m where v: "v = JSON_OBJECT m" by blast
      from True p v Cons.prems(1)
      have 1: "header_loop oor ps nt nm ts (metadata_loop m nm md) = Inr (ts', md')"
        by simp
      from kv v have "distinct (map (\<lambda>p. c_str (fst p)) m)" by simp
      then have 6: "distinct (filter untruncated (map meta_key (metadata_loop m nm md)))"
        unfolding md by (rule metadata_loop_distinct) simp_all
      from 1 d kd Cons.prems(4) old' 6 show ?thesis
        using nometa by (intro Cons.IH) simp_all
    qed
  next
    case False
    from Cons.prems(7) have 7: "md = [] \<or> (\<forall>p\<in>set ps. \<not> strcmp_eq (fst p) ''__metadata__'')"
      by auto
    show ?thesis
    proof (cases "nt \<le> length ts")
      case True
      with False p Cons.prems(1)
      have "header_loop oor ps nt nm ts md = Inr (ts', md')" by simp
      then show ?thesis
        using d kd Cons.prems(4) old' Cons.prems(6) 7 by (intro Cons.IH) simp_all
    next
      case nt: False
      with False p Cons.prems(1) obtain t where t: "parse_tensor oor k v = Inr t"
        and 1: "header_loop oor ps nt nm (ts @ [t]) md = Inr (ts', md')"
        by (cases "parse_tensor oor k v") simp_all
      have n: "name t = take (CSAFETENSORS_MAX_STRING_LEN - 1) (c_str k)"
        using t by (rule parse_tensor_name)
      have k: "untruncated (name t) \<Longrightarrow> name t = c_str k"
        unfolding n by (rule take_untruncated)
      have 4: "distinct (filter untruncated (map name (ts @ [t])))"
        using Cons.prems(4) old k by auto
      have 5: "\<forall>t\<in>set (ts @ [t]). untruncated (name t) \<longrightarrow>
                 name t \<notin> (\<lambda>p. c_str (fst p)) ` set ps"
      proof (intro ballI impI)
        fix u assume u: "u \<in> set (ts @ [t])" "untruncated (name u)"
        show "name u \<notin> (\<lambda>p. c_str (fst p)) ` set ps"
        proof (cases "u = t")
          case True
          with u k nk show ?thesis by simp
        next
          case False
          with u old show ?thesis by simp
        qed
      qed
      from 1 d kd 4 5 Cons.prems(6) 7 show ?thesis
        by (rule Cons.IH)
    qed
  qed
qed

lemma loaded_distinct:
  assumes "loaded st"
  shows "distinct (filter untruncated (map name (tensors st)))"
    and "distinct (filter untruncated (map meta_key (metadata st)))"
proof -
  from assms obtain oor data st1 where
    h: "parse_safetensors_header oor data csafetensors_init = (True, st1)"
       "tensors st = tensors st1" "metadata st = metadata st1"
    by (rule loaded_header)
  from h(1) obtain pairs rest ts md where
    j: "json_parse_value (take (unat (read_u64_le data)) (drop 8 data))
          = Inr (JSON_OBJECT pairs, rest)"
    and l: "header_loop oor pairs (fst (count_loop pairs 0 0)) (snd (count_loop pairs 0 0)) [] []
       = Inr (ts, md)"
    and s: "st1 = csafetensors_init\<lparr>header_size := read_u64_le data, tensors := ts, metadata := md\<rparr>"
    by (rule parse_safetensors_header_True)
  from j have "keys_distinct (JSON_OBJECT pairs)" by (rule json_parse_value_keys_distinct)
  then have "distinct (map (\<lambda>p. c_str (fst p)) pairs)" "\<forall>p\<in>set pairs. keys_distinct (snd p)"
    by simp_all
  with l have "distinct (filter untruncated (map name ts)) \<and>
         distinct (filter untruncated (map meta_key md))"
    by (rule header_loop_distinct) simp_all
  with h(2,3) s show "distinct (filter untruncated (map name (tensors st)))"
    and "distinct (filter untruncated (map meta_key (metadata st)))"
    by simp_all
qed

lemma meta_json:
  "json_parse_value meta_header =
     Inr (JSON_OBJECT
       [(''__metadata__'', JSON_OBJECT [(''k'', JSON_STRING ''v'')]),
        (''t'', JSON_OBJECT
            [(''dtype'', JSON_STRING ''U8''),
             (''shape'', JSON_ARRAY [JSON_NUMBER (Finite 1)]),
             (''data_offsets'', JSON_ARRAY [JSON_NUMBER (Finite 0), JSON_NUMBER (Finite 1)])])],
       [])"
  unfolding meta_header_def
  by (simp add: json_eval strtod_eval)

lemma meta_length: "length meta_file = 87"
  by (simp add: meta_file_def meta_header_def)

lemma meta_parse:
  "parse_safetensors_header oor meta_file csafetensors_init =
     (True, csafetensors_init\<lparr>header_size := 78,
        tensors := [\<lparr>name = ''t'', dtype = CSAFETENSORS_DTYPE_UINT8, shape = [1],
                     data_offset_begin = 0, data_offset_end = 1\<rparr>],
        metadata := [\<lparr>meta_key = ''k'', meta_value = ''v''\<rparr>]\<rparr>)"
proof -
  have t: "take 78 (drop 8 meta_file) = meta_header"
    by (simp add: meta_file_def meta_header_def)
  have r: "read_u64_le meta_file = 78" by (simp add: read_u64_le_def meta_file_def)
  show ?thesis
    by (simp add: parse_safetensors_header_def meta_length r t meta_json
          CSAFETENSORS_MAX_JSON_SIZE_def
          parse_tensor_def parse_dtype_string_def CSAFETENSORS_MAX_DIM_def
          CSAFETENSORS_MAX_STRING_LEN_def strncpy_zeroed_def double_to_size_t_def
          strcmp_eq_def c_str_def Let_def csafetensors_init_def)
qed

lemma meta_load:
  "csafetensors_load_from_memory oor 0x5000 0x1000 meta_file st0 =
     (CSAFETENSORS_SUCCESS,
      csafetensors_init\<lparr>header_size := 78,
        tensors := [\<lparr>name = ''t'', dtype = CSAFETENSORS_DTYPE_UINT8, shape = [1],
                     data_offset_begin = 0, data_offset_end = 1\<rparr>],
        metadata := [\<lparr>meta_key = ''k'', meta_value = ''v''\<rparr>],
        storage := 0x5000, storage_content := [CHR 0x07], storage_size := 1\<rparr>)"
  by (simp add: csafetensors_load_from_memory_def meta_parse meta_length NULL_def)
     (simp add: meta_file_def meta_header_def csafetensors_init_def)

lemma meta_loaded:
  "loaded (snd (csafetensors_load_from_memory (\<lambda>_. 0) 0x5000 0x1000 meta_file csafetensors_init))"
  unfolding loaded_def
  by (intro exI [of _ "\<lambda>_. 0"] exI [of _ "0x5000"] exI [of _ "0x1000"] exI [of _ meta_file]
        exI [of _ csafetensors_init] disjI1) (simp add: meta_load)

lemma long_loaded:
  "loaded (snd (csafetensors_load_from_memory (\<lambda>_. 0) 0x5000 0x1000 long_file csafetensors_init))"
  unfolding loaded_def
  by (intro exI [of _ "\<lambda>_. 0"] exI [of _ "0x5000"] exI [of _ "0x1000"] exI [of _ long_file]
        exI [of _ csafetensors_init] disjI1) (simp add: long_load)

text \<open>
  C6, amended.  A value the JSON reader returns holds, at no depth, an object with two
  keys equal as C strings: at a key that is already among the pairs read, the object
  loop fails with ``Duplicate key in object''.  Consequently, in every successfully
  loaded structure the tensor names shorter than 4095 bytes are pairwise distinct, and
  so are the metadata keys shorter than 4095 bytes.
\<close>

theorem loaded_names_distinct_unless_truncated:
  "(json_parse_value s = Inr (v, r) \<longrightarrow> keys_distinct v)
   \<and> (json_parse_string s' = Inr (kv, r0) \<and> json_skip_whitespace r0 = CHR '':'' # r1
        \<and> json_parse_value r1 = Inr (val, r2) \<and> has_key pairs (data_string kv) \<longrightarrow>
      json_object_loop pairs s' = Inl Duplicate_key_in_object)
   \<and> (loaded st \<longrightarrow>
        distinct (filter untruncated (map name (tensors st))) \<and>
        distinct (filter untruncated (map meta_key (metadata st))))"
proof (intro conjI impI)
  assume "json_parse_value s = Inr (v, r)"
  then show "keys_distinct v" by (rule json_parse_value_keys_distinct)
next
  assume "json_parse_string s' = Inr (kv, r0) \<and> json_skip_whitespace r0 = CHR '':'' # r1
        \<and> json_parse_value r1 = Inr (val, r2) \<and> has_key pairs (data_string kv)"
  then have "json_parse_string s' = Inr (kv, r0)" "json_skip_whitespace r0 = CHR '':'' # r1"
    "json_parse_value r1 = Inr (val, r2)" "has_key pairs (data_string kv)"
    by blast+
  then show "json_object_loop pairs s' = Inl Duplicate_key_in_object"
    by (rule json_object_loop_duplicate)
next
  assume "loaded st"
  then show "distinct (filter untruncated (map name (tensors st)))"
    by (rule loaded_distinct(1))
next
  assume "loaded st"
  then show "distinct (filter untruncated (map meta_key (metadata st)))"
    by (rule loaded_distinct(2))
qed

text \<open>
  The header of \<open>meta_file\<close> parses to a value without equal keys, and the loaded
  structure has the one tensor name \<open>t\<close> and the one metadata key \<open>k\<close>; and the
  object loop rejects the key \<open>a\<close> once a pair with the key \<open>a\<close> is stored.
\<close>

theorem loaded_names_distinct_unless_truncated_witness:
  \<open>keys_distinct (JSON_OBJECT
       [(''__metadata__'', JSON_OBJECT [(''k'', JSON_STRING ''v'')]),
        (''t'', JSON_OBJECT
            [(''dtype'', JSON_STRING ''U8''),
             (''shape'', JSON_ARRAY [JSON_NUMBER (Finite 1)]),
             (''data_offsets'', JSON_ARRAY [JSON_NUMBER (Finite 0), JSON_NUMBER (Finite 1)])])])
   \<and> json_object_loop [(''a'', JSON_NULL)] ''"a":1}'' = Inl Duplicate_key_in_object
   \<and> loaded (snd (csafetensors_load_from_memory (\<lambda>_. 0) 0x5000 0x1000 meta_file csafetensors_init))
   \<and> distinct (filter untruncated (map name (tensors
        (snd (csafetensors_load_from_memory (\<lambda>_. 0) 0x5000 0x1000 meta_file csafetensors_init)))))
   \<and> distinct (filter untruncated (map meta_key (metadata
        (snd (csafetensors_load_from_memory (\<lambda>_. 0) 0x5000 0x1000 meta_file csafetensors_init)))))
   \<and> filter untruncated (map name (tensors
        (snd (csafetensors_load_from_memory (\<lambda>_. 0) 0x5000 0x1000 meta_file csafetensors_init))))
       = [''t'']
   \<and> filter untruncated (map meta_key (metadata
        (snd (csafetensors_load_from_memory (\<lambda>_. 0) 0x5000 0x1000 meta_file csafetensors_init))))
       = [''k'']\<close>
proof -
  let ?st = "snd (csafetensors_load_from_memory (\<lambda>_. 0) 0x5000 0x1000 meta_file csafetensors_init)"
  have p1: \<open>json_parse_string ''"a":1}'' = Inr (JSON_STRING ''a'', '':1}'')\<close>
    by (simp add: json_parse_string_def)
  have p2: "json_skip_whitespace '':1}'' = CHR '':'' # ''1}''"
    by simp
  have p3: "json_parse_value ''1}'' = Inr (JSON_NUMBER (Finite 1), ''}'')"
    by (simp add: json_eval strtod_eval)
  have p4: "has_key [(''a'', JSON_NULL)] (data_string (JSON_STRING ''a''))"
    by (simp add: has_key_def strcmp_eq_def)
  note T = loaded_names_distinct_unless_truncated
    [where s = meta_header and r = "[]" and s' = \<open>''"a":1}''\<close> and kv = "JSON_STRING ''a''"
       and ?r0.0 = "'':1}''" and ?r1.0 = "''1}''" and val = "JSON_NUMBER (Finite 1)"
       and ?r2.0 = "''}''" and pairs = "[(''a'', JSON_NULL)]" and st = ?st]
  from mp [OF conjunct1 [OF T] meta_json]
  have a: "keys_distinct (JSON_OBJECT
       [(''__metadata__'', JSON_OBJECT [(''k'', JSON_STRING ''v'')]),
        (''t'', JSON_OBJECT
            [(''dtype'', JSON_STRING ''U8''),
             (''shape'', JSON_ARRAY [JSON_NUMBER (Finite 1)]),
             (''data_offsets'', JSON_ARRAY [JSON_NUMBER (Finite 0), JSON_NUMBER (Finite 1)])])])" .
  from mp [OF conjunct1 [OF conjunct2 [OF T]]] p1 p2 p3 p4
  have b: \<open>json_object_loop [(''a'', JSON_NULL)] ''"a":1}'' = Inl Duplicate_key_in_object\<close>
    by blast
  from mp [OF conjunct2 [OF conjunct2 [OF T]] meta_loaded]
  have c: "distinct (filter untruncated (map name (tensors ?st)))"
    "distinct (filter untruncated (map meta_key (metadata ?st)))"
    by blast+
  have d: "filter untruncated (map name (tensors ?st)) = [''t'']"
    "filter untruncated (map meta_key (metadata ?st)) = [''k'']"
    by (simp_all add: meta_load untruncated_def CSAFETENSORS_MAX_STRING_LEN_def)
  from a b meta_loaded c d show ?thesis by blast
qed

text \<open>
  The claim as stated fails where names are truncated: \<open>long_file\<close> loads, its two
  keys differ as C strings, and the two stored tensor names are equal.
\<close>

theorem truncated_names_coincide_counterexample:
  "loaded (snd (csafetensors_load_from_memory (\<lambda>_. 0) 0x5000 0x1000 long_file csafetensors_init))
   \<and> fst (csafetensors_load_from_memory (\<lambda>_. 0) 0x5000 0x1000 long_file csafetensors_init)
       = CSAFETENSORS_SUCCESS
   \<and> \<not> strcmp_eq long_name_x long_name_y
   \<and> \<not> distinct (map name (tensors
        (snd (csafetensors_load_from_memory (\<lambda>_. 0) 0x5000 0x1000 long_file csafetensors_init))))"
proof -
  have "\<not> strcmp_eq long_name_x long_name_y"
    by (simp add: strcmp_eq_def c_str_def long_name_x_def long_name_y_def takeWhile_long_prefix)
  with long_loaded show ?thesis
    by (simp add: long_load)
qed


section \<open>Half precision round trip\<close>

lemma nat_and_field:
  "(n :: nat) AND push_bit j (mask k) = push_bit j (take_bit k (drop_bit j n))"
  by (rule bit_eqI) (auto simp: bit_simps)

lemma nat_and_7fff: "(n :: nat) AND 0x7fff = n mod 32768"
  using nat_and_field [of n 0 15] by (simp add: mask_eq_exp_minus_1 take_bit_eq_mod)

lemma nat_and_8000: "(n :: nat) AND 0x8000 = (n div 32768 mod 2) * 32768"
  using nat_and_field [of n 15 1]
  by (simp add: mask_eq_exp_minus_1 take_bit_eq_mod drop_bit_eq_div push_bit_eq_mult)

lemma nat_and_7c00: "(n :: nat) AND 0x7c00 = (n div 1024 mod 32) * 1024"
  using nat_and_field [of n 10 5]
  by (simp add: mask_eq_exp_minus_1 take_bit_eq_mod drop_bit_eq_div push_bit_eq_mult)

lemma nat_and_ff: "(n :: nat) AND 0xff = n mod 256"
  using nat_and_field [of n 0 8] by (simp add: mask_eq_exp_minus_1 take_bit_eq_mod)

lemma nat_and_7fffff: "(n :: nat) AND 0x7fffff = n mod 8388608"
  using nat_and_field [of n 0 23] by (simp add: mask_eq_exp_minus_1 take_bit_eq_mod)

lemma nat_and_1000: "(n :: nat) AND 0x1000 = (n div 4096 mod 2) * 4096"
  using nat_and_field [of n 12 1]
  by (simp add: mask_eq_exp_minus_1 take_bit_eq_mod drop_bit_eq_div push_bit_eq_mult)

lemma nat_and_f800000: "(n :: nat) AND 0xf800000 = (n div 8388608 mod 32) * 8388608"
  using nat_and_field [of n 23 5]
  by (simp add: mask_eq_exp_minus_1 take_bit_eq_mod drop_bit_eq_div push_bit_eq_mult)

lemma nat_or_disjoint:
  assumes "(a :: nat) < 2 ^ j"
  shows "a OR c * 2 ^ j = a + c * 2 ^ j"
proof -
  have "take_bit j a AND push_bit j c = 0"
    by (rule bit_eqI) (auto simp: bit_simps)
  moreover have "take_bit j a = a" using assms by (simp add: take_bit_nat_eq_self)
  ultimately have "a AND push_bit j c = 0" by simp
  then have "a + push_bit j c = a OR push_bit j c" by (rule disjunctive_add_eq_or)
  then show ?thesis by (simp add: push_bit_eq_mult)
qed

lemma unat_u16_less: "unat (x :: u16) < 65536"
  using unsigned_less [of x, where ?'a = nat] by simp

lemma f16_o0:
  "unat (push_bit 13 (ucast ((x :: u16) AND 0x7fff) :: u32) :: u32) = (unat x mod 32768) * 8192"
proof -
  have "unat (x AND 0x7fff) = unat x mod 32768"
    by (simp add: unsigned_and_eq nat_and_7fff)
  then have u: "unat (ucast (x AND 0x7fff) :: u32) = unat x mod 32768"
    by (simp add: unsigned_ucast_eq take_bit_eq_mod)
  have "unat x mod 32768 * 8192 < 4294967296"
  proof -
    have "unat x mod 32768 < 32768" by simp
    then show ?thesis by linarith
  qed
  then show ?thesis
    unfolding unsigned_push_bit_eq u by (simp add: push_bit_eq_mult take_bit_eq_mod)
qed

lemma f16_sign:
  "unat (push_bit 16 (ucast ((x :: u16) AND 0x8000) :: u32) :: u32) = (unat x div 32768) * 2147483648"
proof -
  have d: "unat x div 32768 < 2" using unat_u16_less [of x] by simp
  have "unat (x AND 0x8000) = (unat x div 32768) * 32768"
    using d by (simp add: unsigned_and_eq nat_and_8000)
  then have u: "unat (ucast (x AND 0x8000) :: u32) = (unat x div 32768) * 32768"
    using d by (simp add: unsigned_ucast_eq take_bit_eq_mod)
  have "unat x div 32768 * 32768 * 65536 < 4294967296"
    using d by linarith
  then show ?thesis
    unfolding unsigned_push_bit_eq u by (simp add: push_bit_eq_mult take_bit_eq_mod)
qed

lemma nat_mod_div_field: "(n :: nat) mod 32768 div 1024 = n div 1024 mod 32"
proof -
  have "n mod (1024 * 32) = 1024 * (n div 1024 mod 32) + n mod 1024"
    by (rule mod_mult2_eq)
  then show ?thesis by simp
qed

lemma f16_exp_field:
  "unat (push_bit 13 (0x7c00 :: u32) AND push_bit 13 (ucast ((x :: u16) AND 0x7fff) :: u32))
     = (unat x div 1024 mod 32) * 8388608"
proof -
  have c: "push_bit 13 (0x7c00 :: u32) = 0xf800000" by simp
  have "unat x mod 32768 * 8192 div 8388608 = unat x mod 32768 div 1024"
    by simp
  then have d: "unat x mod 32768 * 8192 div 8388608 = unat x div 1024 mod 32"
    by (simp only: nat_mod_div_field)
  have "unat (0xf800000 AND push_bit 13 (ucast (x AND 0x7fff) :: u32) :: u32)
          = (unat x mod 32768 * 8192) AND 0xf800000"
    unfolding unsigned_and_eq [where ?'a = nat] f16_o0 by (simp add: and.commute)
  also have "\<dots> = (unat x div 1024 mod 32) * 8388608"
    unfolding nat_and_f800000 d by simp
  finally show ?thesis unfolding c .
qed

lemma f16_is_finite_iff: "f16_is_finite x \<longleftrightarrow> unat x div 1024 mod 32 \<noteq> 31"
proof -
  have "unat (x AND 0x7c00) = (unat x div 1024 mod 32) * 1024"
    by (simp add: unsigned_and_eq nat_and_7c00)
  moreover have "x AND 0x7c00 = 0x7c00 \<longleftrightarrow> unat (x AND 0x7c00) = unat (0x7c00 :: u16)"
    by (simp add: word_unat_eq_iff)
  ultimately show ?thesis by (simp add: f16_is_finite_def)
qed

lemma u32_or_sign:
  fixes w sg :: u32
  assumes "unat w < 2147483648" "unat sg = s * 2147483648"
  shows "unat (w OR sg) = unat w + s * 2147483648"
proof -
  have "unat (w OR sg) = unat w OR s * 2 ^ 31"
    unfolding unsigned_or_eq [where ?'a = nat] assms(2) by simp
  also have "\<dots> = unat w + s * 2 ^ 31"
    by (rule nat_or_disjoint) (use assms(1) in simp)
  finally show ?thesis by simp
qed

lemma f32_fields:
  fixes u :: u32
  assumes "unat u = s * 2147483648 + E * 8388608 + M" "s < 2" "E < 256" "M < 8388608"
  shows "unat (drop_bit 23 u AND 0xff) = E"
    and "unat (u AND 0x7fffff) = M"
    and "unat (drop_bit 16 u AND 0x8000) = s * 32768"
proof -
  have a: "s * 2147483648 + E * 8388608 + M = (s * 256 + E) * 8388608 + M" by simp
  have d23: "unat u div 8388608 = s * 256 + E"
    unfolding assms(1) a using assms(4) by simp
  have "unat (drop_bit 23 u AND 0xff) = unat u div 8388608 mod 256"
    unfolding unsigned_and_eq [where ?'a = nat] unat_drop_bit_eq
    by (simp add: nat_and_ff drop_bit_eq_div)
  with d23 assms(3) show "unat (drop_bit 23 u AND 0xff) = E" by simp
  have "unat (u AND 0x7fffff) = unat u mod 8388608"
    unfolding unsigned_and_eq [where ?'a = nat] by (simp add: nat_and_7fffff)
  also have "\<dots> = ((s * 256 + E) * 8388608 + M) mod 8388608"
    by (simp only: assms(1) a)
  also have "\<dots> = M mod 8388608" by (rule mod_mult_self3)
  also have "\<dots> = M" using assms(4) by simp
  finally show "unat (u AND 0x7fffff) = M" .
  have b: "s * 2147483648 + E * 8388608 + M = s * 32768 * 65536 + (E * 8388608 + M)" by simp
  have "E * 8388608 + M < 2147483648" using assms(3,4) by linarith
  then have lo: "(E * 8388608 + M) div 65536 < 32768" by simp
  have d16: "unat u div 65536 = s * 32768 + (E * 8388608 + M) div 65536"
    unfolding assms(1) b by simp
  have "unat (drop_bit 16 u AND 0x8000) = (unat u div 65536 div 32768 mod 2) * 32768"
    unfolding unsigned_and_eq [where ?'a = nat] unat_drop_bit_eq
    by (simp add: nat_and_8000 drop_bit_eq_div)
  also have "unat u div 65536 div 32768 = s"
    unfolding d16 using lo by simp
  finally show "unat (drop_bit 16 u AND 0x8000) = s * 32768" using assms(2) by simp
qed

lemma unat_ucast_u16:
  fixes w :: u32
  assumes "unat w < 65536"
  shows "unat (ucast w :: u16) = unat w"
  using assms by (simp add: unsigned_ucast_eq take_bit_eq_mod)

lemma f32_to_f16_normal:
  fixes u :: u32
  assumes u: "unat u = s * 2147483648 + (e + 112) * 8388608 + f * 8192"
    and s: "s < 2" and e: "1 \<le> e" "e \<le> 30" and f: "f < 1024"
  shows "unat (csafetensors_f32_to_f16 u) = s * 32768 + e * 1024 + f"
proof -
  define sign where "sign = drop_bit 16 u AND 0x8000"
  define exp where "exp = drop_bit 23 u AND 0xff"
  define mant where "mant = u AND 0x7fffff"
  have M: "f * 8192 < 8388608" using f by simp
  have E: "e + 112 < 256" using e by simp
  note F = f32_fields [OF u s E M]
  have exp: "unat exp = e + 112" unfolding exp_def by (rule F(1))
  have mant: "unat mant = f * 8192" unfolding mant_def by (rule F(2))
  have sign: "unat sign = s * 32768" unfolding sign_def by (rule F(3))
  have exp0: "exp \<noteq> 0" using exp by (auto simp: unat_eq_0 [symmetric])
  have exp255: "exp \<noteq> 255"
  proof
    assume "exp = 255"
    then have "unat exp = 255" by simp
    with exp e show False by simp
  qed
  have ne: "uint exp - 127 + 15 = int e" using exp by (simp add: uint_nat)
  have c1: "\<not> 31 \<le> int e" "\<not> int e \<le> 0" using e by simp_all
  have m12: "mant AND 0x1000 = 0"
  proof -
    have "unat (mant AND 0x1000) = (f * 8192 div 4096 mod 2) * 4096"
      unfolding unsigned_and_eq [where ?'a = nat] mant by (simp add: nat_and_1000)
    also have "f * 8192 div 4096 = f * 2" by simp
    finally have "unat (mant AND 0x1000) = 0" by simp
    then show ?thesis by (simp only: unat_eq_0)
  qed
  have r: "csafetensors_f32_to_f16 u
             = ucast (sign OR push_bit 10 (word_of_int (int e)) OR drop_bit 13 mant)"
    unfolding csafetensors_f32_to_f16_def Let_def
    unfolding sign_def [symmetric] exp_def [symmetric] mant_def [symmetric]
    by (simp only: exp0 exp255 ne c1 m12 if_False if_True simp_thms)
  have d13: "unat (drop_bit 13 mant) = f"
    unfolding unat_drop_bit_eq mant by (simp add: drop_bit_eq_div)
  have p10: "unat (push_bit 10 (word_of_int (int e) :: u32)) = e * 1024"
  proof -
    have "unat (word_of_int (int e) :: u32) = e" using e by (simp add: unat_of_nat)
    then show ?thesis
      unfolding unsigned_push_bit_eq using e
      by (simp add: push_bit_eq_mult take_bit_eq_mod)
  qed
  have "unat (sign OR push_bit 10 (word_of_int (int e)) OR drop_bit 13 mant)
          = (f OR e * 2 ^ 10) OR s * 2 ^ 15"
    unfolding unsigned_or_eq [where ?'a = nat] sign p10 d13
    by (simp add: or.commute or.left_commute)
  also have "f OR e * 2 ^ 10 = f + e * 2 ^ 10"
    by (rule nat_or_disjoint) (use f in simp)
  also have "(f + e * 2 ^ 10) OR s * 2 ^ 15 = (f + e * 2 ^ 10) + s * 2 ^ 15"
    by (rule nat_or_disjoint) (use f e in simp)
  finally have v: "unat (sign OR push_bit 10 (word_of_int (int e)) OR drop_bit 13 mant)
          = s * 32768 + e * 1024 + f"
    by simp
  have "s * 32768 + e * 1024 + f < 65536" using s e f by simp
  with v show ?thesis unfolding r by (simp add: unat_ucast_u16)
qed

lemma f32_to_f16_zero:
  fixes u :: u32
  assumes u: "unat u = s * 2147483648" and s: "s < 2"
  shows "unat (csafetensors_f32_to_f16 u) = s * 32768"
proof -
  define sign where "sign = drop_bit 16 u AND 0x8000"
  define exp where "exp = drop_bit 23 u AND 0xff"
  from u have u': "unat u = s * 2147483648 + 0 * 8388608 + 0" by simp
  have E: "(0::nat) < 256" and M: "(0::nat) < 8388608" by simp_all
  note F = f32_fields [OF u' s E M]
  have "unat exp = 0" unfolding exp_def by (rule F(1))
  then have exp0: "exp = 0" by (simp only: unat_eq_0)
  have sign: "unat sign = s * 32768" unfolding sign_def by (rule F(3))
  have r: "csafetensors_f32_to_f16 u = ucast sign"
    unfolding csafetensors_f32_to_f16_def Let_def
    unfolding sign_def [symmetric] exp_def [symmetric]
    by (simp only: exp0 if_True simp_thms)
  have "s * 32768 < 65536" using s by simp
  with sign show ?thesis unfolding r by (simp add: unat_ucast_u16)
qed

lemma f32_to_f16_subnormal:
  fixes u :: u32
  assumes u: "unat u = s * 2147483648 + (k + 103) * 8388608 + (f * 2 ^ (23 - k) - 8388608)"
    and s: "s < 2" and k: "k \<le> 9" and f: "2 ^ k \<le> f" "f < 2 ^ (k + 1)"
  shows "unat (csafetensors_f32_to_f16 u) = s * 32768 + f"
proof -
  define sign where "sign = drop_bit 16 u AND 0x8000"
  define exp where "exp = drop_bit 23 u AND 0xff"
  define mant where "mant = u AND 0x7fffff"
  have p: "(2::nat) ^ k * 2 ^ (23 - k) = 8388608"
    using k by (simp flip: power_add)
  have p1: "(2::nat) ^ (k + 1) * 2 ^ (23 - k) = 16777216"
    using k by (simp flip: power_add)
  have lo: "8388608 \<le> f * 2 ^ (23 - k)"
    using mult_le_mono1 [OF f(1), of "2 ^ (23 - k)"] by (simp only: p)
  have hi: "f * 2 ^ (23 - k) < 16777216"
  proof -
    have "f * 2 ^ (23 - k) < 2 ^ (k + 1) * 2 ^ (23 - k)"
      using f(2) by (simp only: mult_less_cancel2) simp
    then show ?thesis by (simp only: p1)
  qed
  have M: "f * 2 ^ (23 - k) - 8388608 < 8388608" using lo hi by linarith
  have E: "k + 103 < 256" using k by simp
  have f1024: "f < 1024"
  proof -
    have "(2::nat) ^ (k + 1) \<le> 2 ^ 10" using k by (intro power_increasing) simp_all
    with f(2) show ?thesis by simp
  qed
  note F = f32_fields [OF u s E M]
  have exp: "unat exp = k + 103" unfolding exp_def by (rule F(1))
  have mant: "unat mant = f * 2 ^ (23 - k) - 8388608" unfolding mant_def by (rule F(2))
  have sign: "unat sign = s * 32768" unfolding sign_def by (rule F(3))
  have exp0: "exp \<noteq> 0" using exp by (auto simp: unat_eq_0 [symmetric])
  have exp255: "exp \<noteq> 255"
  proof
    assume "exp = 255"
    then have "unat exp = 255" by simp
    with exp k show False by simp
  qed
  have ne: "uint exp - 127 + 15 = int k - 9" using exp by (simp add: uint_nat)
  have c1: "\<not> 31 \<le> int k - 9" "int k - 9 \<le> 0" "14 - (int k - 9) \<le> 24"
    "nat (14 - (int k - 9)) = 23 - k" "nat (13 - (int k - 9)) = 22 - k"
    using k by simp_all
  define m where "m = mant OR 0x800000"
  have m: "unat m = f * 2 ^ (23 - k)"
  proof -
    have "unat m = (f * 2 ^ (23 - k) - 8388608) OR 1 * 2 ^ 23"
      unfolding m_def unsigned_or_eq [where ?'a = nat] mant by simp
    also have "\<dots> = (f * 2 ^ (23 - k) - 8388608) + 1 * 2 ^ 23"
      by (rule nat_or_disjoint) (use M in simp)
    finally show ?thesis using lo by simp
  qed
  have rb: "drop_bit (22 - k) m AND 1 = 0"
  proof -
    have "(2::nat) ^ (23 - k) = 2 * 2 ^ (22 - k)"
      using k by (simp flip: power_Suc)
    then have "f * 2 ^ (23 - k) div 2 ^ (22 - k) = f * 2" by simp
    then have "unat (drop_bit (22 - k) m) = f * 2"
      unfolding unat_drop_bit_eq m by (simp add: drop_bit_eq_div)
    then have "unat (drop_bit (22 - k) m AND 1) = 0"
      unfolding unsigned_and_eq [where ?'a = nat] by (simp add: and_one_eq)
    then show ?thesis by (simp only: unat_eq_0)
  qed
  have r: "csafetensors_f32_to_f16 u = ucast (sign OR drop_bit (23 - k) m)"
    unfolding csafetensors_f32_to_f16_def Let_def
    unfolding sign_def [symmetric] exp_def [symmetric] mant_def [symmetric]
    unfolding m_def [symmetric]
    by (simp only: exp0 exp255 ne c1 rb if_False if_True simp_thms)
  have d: "unat (drop_bit (23 - k) m) = f"
    unfolding unat_drop_bit_eq m by (simp add: drop_bit_eq_div)
  have "unat (sign OR drop_bit (23 - k) m) = f OR s * 2 ^ 15"
    unfolding unsigned_or_eq [where ?'a = nat] sign d by (simp add: or.commute)
  also have "\<dots> = f + s * 2 ^ 15"
    by (rule nat_or_disjoint) (use f1024 in simp)
  finally have v: "unat (sign OR drop_bit (23 - k) m) = s * 32768 + f" by simp
  have "s * 32768 + f < 65536" using s f1024 by simp
  with v show ?thesis unfolding r by (simp add: unat_ucast_u16)
qed

lemma ilog2_unique:
  fixes q :: rat
  assumes "0 < q" "2 powi j \<le> q" "q < 2 powi (j + 1)"
  shows "ilog2 q = j"
proof -
  note b = ilog2_bounds [OF assms(1)]
  have "ilog2 q < j + 1"
  proof (rule ccontr)
    assume "\<not> ilog2 q < j + 1"
    then have "(2::rat) powi (j + 1) \<le> 2 powi (ilog2 q)"
      by (intro power_int_increasing) simp_all
    with b(1) assms(3) show False by simp
  qed
  moreover have "j < ilog2 q + 1"
  proof (rule ccontr)
    assume "\<not> j < ilog2 q + 1"
    then have "(2::rat) powi (ilog2 q + 1) \<le> 2 powi j"
      by (intro power_int_increasing) simp_all
    with b(2) assms(2) show False by simp
  qed
  ultimately show ?thesis by simp
qed

lemma f32_neg_small:
  fixes u :: u32
  assumes "unat u < 2147483648"
  shows "\<not> f32_neg u"
proof -
  have "bit u 31 \<longleftrightarrow> bit (unat u) 31" by (simp add: bit_unsigned_iff)
  also have "\<dots> \<longleftrightarrow> odd (unat u div 2 ^ 31)" by (rule bit_iff_odd)
  also have "unat u div 2 ^ 31 = 0" using assms by simp
  finally show ?thesis by (simp add: f32_neg_def)
qed

lemma f32_fields_pos:
  fixes u :: u32
  assumes "unat u = E * 8388608 + M" "E < 256" "M < 8388608"
  shows "f32_exp u = E" "f32_mant u = M" "\<not> f32_neg u"
proof -
  from assms(1) have u: "unat u = 0 * 2147483648 + E * 8388608 + M" by simp
  have z: "(0::nat) < 2" by simp
  note F = f32_fields [OF u z assms(2,3)]
  show "f32_exp u = E" unfolding f32_exp_def by (rule F(1))
  show "f32_mant u = M" unfolding f32_mant_def by (rule F(2))
  have "E * 8388608 + M < 2147483648" using assms(2,3) by linarith
  with assms(1) show "\<not> f32_neg u" by (intro f32_neg_small) simp
qed

lemma unat_magic: "unat (push_bit 23 (113 :: u32)) = 113 * 8388608 + 0"
  by simp

lemma f32_sub_magic_value:
  fixes a b :: u32
  assumes a: "unat a = 113 * 8388608 + f * 8192" and f: "f < 1024"
    and b: "unat b = 113 * 8388608 + 0"
  shows "f32_value a - f32_value b = of_nat f * 2 powi (- 24)"
    and "f32_exp a = 113" and "f32_exp b = 113"
    and "\<not> f32_neg a" and "\<not> f32_neg b"
proof -
  have M: "f * 8192 < 8388608" using f by simp
  have E: "(113::nat) < 256" by simp
  note A = f32_fields_pos [OF a E M]
  have Z: "(0::nat) < 8388608" by simp
  note B = f32_fields_pos [OF b E Z]
  show "f32_exp a = 113" "f32_exp b = 113" "\<not> f32_neg a" "\<not> f32_neg b"
    by (rule A B)+
  have va: "f32_value a = of_nat (2 ^ 23 + f * 8192) * 2 powi (- 37)"
    by (simp add: f32_value_def A)
  have vb: "f32_value b = of_nat (2 ^ 23) * 2 powi (- 37)"
    by (simp add: f32_value_def B)
  have "(of_nat (f * 8192) :: rat) * 2 powi (- 37) = of_nat f * (2 powi 13 * 2 powi (- 37))"
    by simp
  also have "(2::rat) powi 13 * 2 powi (- 37) = 2 powi (13 + (- 37))"
    by (rule power_int_add [symmetric]) simp
  finally have e: "(of_nat (f * 8192) :: rat) * 2 powi (- 37) = of_nat f * 2 powi (- 24)"
    by simp
  have "f32_value a - f32_value b
          = (of_nat (2 ^ 23 + f * 8192) - of_nat (2 ^ 23)) * 2 powi (- 37)"
    unfolding va vb by (simp only: left_diff_distrib)
  also have "(of_nat (2 ^ 23 + f * 8192) - of_nat (2 ^ 23) :: rat) = of_nat (f * 8192)"
    by simp
  finally show "f32_value a - f32_value b = of_nat f * 2 powi (- 24)"
    by (simp only: e)
qed

lemma f32_sub_magic_zero:
  fixes a b :: u32
  assumes a: "unat a = 113 * 8388608 + 0 * 8192" and b: "unat b = 113 * 8388608 + 0"
  shows "f32_sub a b = 0"
proof -
  have f: "(0::nat) < 1024" by simp
  note V = f32_sub_magic_value [OF a f b]
  from V(1) have q: "f32_value a - f32_value b = 0" by simp
  show ?thesis
    by (simp add: f32_sub_def f32_is_nan_def V(2,3,4,5) q del: power_int_minus)
qed

lemma f32_sub_magic_pos:
  fixes a b :: u32
  assumes a: "unat a = 113 * 8388608 + f * 8192" and b: "unat b = 113 * 8388608 + 0"
    and k: "2 ^ k \<le> f" "f < 2 ^ (k + 1)" and f: "f < 1024"
  shows "unat (f32_sub a b) = (k + 103) * 8388608 + (f * 2 ^ (23 - k) - 8388608)"
proof -
  note V = f32_sub_magic_value [OF a f b]
  define q :: rat where "q = of_nat f * 2 powi (- 24)"
  have f0: "0 < f" using k(1) by (cases "f = 0") simp_all
  have k9: "k \<le> 9"
  proof (rule ccontr)
    assume "\<not> k \<le> 9"
    then have "(2::nat) ^ 10 \<le> 2 ^ k" by (intro power_increasing) simp_all
    with k(1) f show False by simp
  qed
  have q0: "0 < q" using f0 by (simp add: q_def)
  have R: "round_ieee 24 (- 126) 127 q = Finite q"
  proof -
    have "round_ieee 24 (- 126) 127 (of_int (int f) * 2 powi (- 24))
            = Finite (of_int (int f) * 2 powi (- 24))"
      by (rule round_ieee_exact) (use f in simp_all)
    then show ?thesis by (simp add: q_def)
  qed
  have pk: "(2::rat) powi (int k - 24) = 2 ^ k * 2 powi (- 24)"
  proof -
    have "(2::rat) powi (int k + (- 24)) = 2 powi (int k) * 2 powi (- 24)"
      by (rule power_int_add) simp
    then show ?thesis by simp
  qed
  have pk1: "(2::rat) powi (int k - 24 + 1) = 2 ^ (k + 1) * 2 powi (- 24)"
  proof -
    have "(2::rat) powi (int (k + 1) + (- 24)) = 2 powi (int (k + 1)) * 2 powi (- 24)"
      by (rule power_int_add) simp
    moreover have "int k - 24 + 1 = int (k + 1) + (- 24)" by simp
    ultimately show ?thesis by (simp only: power_int_of_nat)
  qed
  have lo: "2 powi (int k - 24) \<le> q"
  proof -
    have "(2::rat) ^ k \<le> of_nat f"
      using k(1) by (metis of_nat_le_iff of_nat_numeral of_nat_power)
    then show ?thesis unfolding pk q_def by (intro mult_right_mono) simp_all
  qed
  have hi: "q < 2 powi (int k - 24 + 1)"
  proof -
    have "(of_nat f :: rat) < 2 ^ (k + 1)"
      using k(2) by (metis of_nat_less_iff of_nat_numeral of_nat_power)
    then show ?thesis unfolding pk1 q_def by (intro mult_strict_right_mono) simp_all
  qed
  have il: "ilog2 q = int k - 24" using q0 lo hi by (rule ilog2_unique)
  have nsub: "\<not> q < 2 powi (- 126)"
  proof -
    have "(2::rat) powi (- 126) \<le> 2 powi (int k - 24)"
      by (intro power_int_increasing) simp_all
    with lo show ?thesis by simp
  qed
  have sc: "q * 2 powi (23 - (int k - 24)) = of_nat (f * 2 ^ (23 - k))"
  proof -
    have "(2::rat) powi (- 24) * 2 powi (23 - (int k - 24)) = 2 powi (- 24 + (23 - (int k - 24)))"
      by (rule power_int_add [symmetric]) simp
    also have "- 24 + (23 - (int k - 24)) = int (23 - k)" using k9 by simp
    finally have "(2::rat) powi (- 24) * 2 powi (23 - (int k - 24)) = 2 ^ (23 - k)"
      by (simp only: power_int_of_nat)
    then have "q * 2 powi (23 - (int k - 24)) = of_nat f * 2 ^ (23 - k)"
      unfolding q_def by (simp only: mult.assoc)
    then show ?thesis by simp
  qed
  have fl: "\<lfloor>q * 2 powi (23 - (int k - 24))\<rfloor> = int (f * 2 ^ (23 - k))"
    by (simp only: sc floor_of_nat)
  have p: "(2::nat) ^ k * 2 ^ (23 - k) = 8388608"
    using k9 by (simp flip: power_add)
  have p1: "(2::nat) ^ (k + 1) * 2 ^ (23 - k) = 16777216"
    using k9 by (simp flip: power_add)
  have lo': "8388608 \<le> f * 2 ^ (23 - k)"
    using mult_le_mono1 [OF k(1), of "2 ^ (23 - k)"] by (simp only: p)
  have hi': "f * 2 ^ (23 - k) < 16777216"
  proof -
    have "f * 2 ^ (23 - k) < 2 ^ (k + 1) * 2 ^ (23 - k)"
      using k(2) by (simp only: mult_less_cancel2) simp
    then show ?thesis by (simp only: p1)
  qed
  define w1 :: u32 where "w1 = push_bit 23 (word_of_int (int k - 24 + 127))"
  define w2 :: u32 where "w2 = word_of_int (int (f * 2 ^ (23 - k)) - 2 ^ 23)"
  have w1: "unat w1 = (k + 103) * 8388608"
  proof -
    have "int k - 24 + 127 = int (k + 103)" by simp
    then have "(word_of_int (int k - 24 + 127) :: u32) = of_nat (k + 103)"
      by (simp only: of_int_of_nat_eq)
    moreover have "unat (of_nat (k + 103) :: u32) = k + 103"
    proof -
      have "unat (of_nat (k + 103) :: u32) = (k + 103) mod 2 ^ LENGTH(32)"
        by (rule unat_of_nat)
      also have "\<dots> = k + 103" using k9 by simp
      finally show ?thesis .
    qed
    ultimately have "unat (word_of_int (int k - 24 + 127) :: u32) = k + 103" by (simp only:)
    then show ?thesis
      unfolding w1_def unsigned_push_bit_eq using k9
      by (simp add: push_bit_eq_mult take_bit_eq_mod)
  qed
  have w2: "unat w2 = f * 2 ^ (23 - k) - 8388608"
  proof -
    have "int (f * 2 ^ (23 - k)) - 2 ^ 23 = int (f * 2 ^ (23 - k) - 8388608)"
      using lo' by simp
    then have "w2 = of_nat (f * 2 ^ (23 - k) - 8388608)"
      unfolding w2_def by (simp only: of_int_of_nat_eq)
    moreover have "unat (of_nat (f * 2 ^ (23 - k) - 8388608) :: u32)
                     = (f * 2 ^ (23 - k) - 8388608) mod 2 ^ LENGTH(32)"
      by (rule unat_of_nat)
    moreover have "(f * 2 ^ (23 - k) - 8388608) mod 2 ^ LENGTH(32) = f * 2 ^ (23 - k) - 8388608"
      using hi' by simp
    ultimately show ?thesis by (simp only:)
  qed
  have sum: "unat (w1 + w2) = (k + 103) * 8388608 + (f * 2 ^ (23 - k) - 8388608)"
  proof -
    have "(k + 103) * 8388608 + (f * 2 ^ (23 - k) - 8388608) < 2 ^ 32"
      using k9 hi' by simp
    then have "unat w1 + unat w2 < 2 ^ LENGTH(32)" by (simp add: w1 w2)
    then have "unat (w1 + w2) = unat w1 + unat w2" by (simp only: unat_add_lem)
    then show ?thesis by (simp only: w1 w2)
  qed
  have "f32_of_rat False q = 0 OR (w1 + w2)"
    unfolding w1_def w2_def by (simp only: f32_of_rat_def nsub il fl if_False)
  then have "f32_of_rat False q = w1 + w2" by simp
  moreover have "f32_sub a b = f32_of_rat False q"
  proof -
    have q': "f32_value a - f32_value b = q" unfolding q_def by (rule V(1))
    have "q \<noteq> 0" "\<not> q < 0" "\<bar>q\<bar> = q" using q0 by simp_all
    then show ?thesis
      by (simp add: f32_sub_def f32_is_nan_def V(2,3,4,5) q' R del: power_int_minus)
  qed
  ultimately show ?thesis by (simp only: sum)
qed

lemma nat_fields_16:
  fixes n :: nat
  shows "n mod 32768 = (n div 1024 mod 32) * 1024 + n mod 1024"
    and "n = (n div 32768) * 32768 + (n div 1024 mod 32) * 1024 + n mod 1024"
proof -
  have "n mod (1024 * 32) = 1024 * (n div 1024 mod 32) + n mod 1024"
    by (rule mod_mult2_eq)
  then show a: "n mod 32768 = (n div 1024 mod 32) * 1024 + n mod 1024" by simp
  have "n = (n div 32768) * 32768 + n mod 32768" by simp
  then show "n = (n div 32768) * 32768 + (n div 1024 mod 32) * 1024 + n mod 1024"
    unfolding a by simp
qed

lemma floorlog_exponent:
  fixes f :: nat
  assumes "0 < f"
  obtains k where "2 ^ k \<le> f" "f < 2 ^ (k + 1)"
proof -
  from floorlog_bounds [OF assms, of 2]
  have b: "2 ^ (floorlog 2 f - 1) \<le> f" "f < 2 ^ floorlog 2 f" by simp_all
  have "1 \<le> floorlog 2 f" using assms by (simp add: floorlog_def)
  then have "floorlog 2 f = (floorlog 2 f - 1) + 1" by simp
  with b(2) have "f < 2 ^ ((floorlog 2 f - 1) + 1)" by simp
  with b(1) show ?thesis by (rule that)
qed

lemma f16_to_f32_cases:
  fixes x :: u16
  defines "s \<equiv> unat x div 32768" and "e \<equiv> unat x div 1024 mod 32" and "f \<equiv> unat x mod 1024"
  shows "e \<noteq> 0 \<Longrightarrow> e \<noteq> 31 \<Longrightarrow>
           unat (csafetensors_f16_to_f32 x) = s * 2147483648 + (e + 112) * 8388608 + f * 8192"
    and "e = 0 \<Longrightarrow> f = 0 \<Longrightarrow> unat (csafetensors_f16_to_f32 x) = s * 2147483648"
    and "e = 0 \<Longrightarrow> 2 ^ k \<le> f \<Longrightarrow> f < 2 ^ (k + 1) \<Longrightarrow>
           unat (csafetensors_f16_to_f32 x)
             = s * 2147483648 + (k + 103) * 8388608 + (f * 2 ^ (23 - k) - 8388608)"
proof -
  define shifted :: u32 where "shifted = push_bit 13 0x7c00"
  define o0 :: u32 where "o0 = push_bit 13 (ucast (x AND 0x7fff))"
  define sg :: u32 where "sg = push_bit 16 (ucast (x AND 0x8000))"
  define c112 :: u32 where "c112 = push_bit 23 (127 - 15)"
  define c1 :: u32 where "c1 = push_bit 23 1"
  define magic :: u32 where "magic = push_bit 23 113"
  have e32: "e < 32" and f1024: "f < 1024" by (simp_all add: e_def f_def)
  have o0: "unat o0 = (e * 1024 + f) * 8192"
    unfolding o0_def f16_o0 e_def f_def by (simp only: nat_fields_16(1))
  have sg: "unat sg = s * 2147483648"
    unfolding sg_def s_def by (rule f16_sign)
  have ex: "unat (shifted AND o0) = e * 8388608"
    unfolding shifted_def o0_def e_def by (rule f16_exp_field)
  have sh: "unat shifted = 31 * 8388608" by (simp add: shifted_def)
  have is31: "shifted AND o0 = shifted \<longleftrightarrow> e = 31"
    unfolding word_unat_eq_iff ex sh by simp
  have is0: "shifted AND o0 = 0 \<longleftrightarrow> e = 0"
    using ex by (simp add: unat_eq_0 [symmetric])
  have c112: "unat c112 = 112 * 8388608" by (simp add: c112_def)
  have small: "(e * 1024 + f) * 8192 < 268435456" using e32 f1024 by simp
  have o1: "unat (o0 + c112) = (e + 112) * 8388608 + f * 8192"
  proof -
    have "unat o0 + unat c112 < 2 ^ LENGTH(32)" using small by (simp add: o0 c112)
    then have "unat (o0 + c112) = unat o0 + unat c112" by (simp only: unat_add_lem)
    then show ?thesis by (simp add: o0 c112)
  qed
  have r: "csafetensors_f16_to_f32 x =
     (if shifted AND o0 = shifted then o0 + c112 + push_bit 23 (128 - 16)
      else if shifted AND o0 = 0 then f32_sub (o0 + c112 + c1) magic
      else o0 + c112) OR sg"
    unfolding csafetensors_f16_to_f32_def Let_def
    unfolding shifted_def [symmetric] o0_def [symmetric] sg_def [symmetric]
      c112_def [symmetric] c1_def [symmetric] magic_def [symmetric]
    by (rule refl)
  {
    assume e: "e \<noteq> 0" "e \<noteq> 31"
    have r': "csafetensors_f16_to_f32 x = (o0 + c112) OR sg"
      unfolding r is31 is0 using e by simp
    have "unat (o0 + c112) < 2147483648"
      unfolding o1 using e32 f1024 by simp
    from u32_or_sign [OF this sg]
    show "unat (csafetensors_f16_to_f32 x) = s * 2147483648 + (e + 112) * 8388608 + f * 8192"
      unfolding r' o1 by simp
  }
  {
    assume e: "e = 0"
    have r': "csafetensors_f16_to_f32 x = f32_sub (o0 + c112 + c1) magic OR sg"
      unfolding r is31 is0 using e by simp
    have c1: "unat c1 = 8388608" by (simp add: c1_def)
    have a: "unat (o0 + c112 + c1) = 113 * 8388608 + f * 8192"
    proof -
      have "unat (o0 + c112) + unat c1 < 2 ^ LENGTH(32)"
        unfolding o1 c1 using e f1024 by simp
      then have "unat (o0 + c112 + c1) = unat (o0 + c112) + unat c1"
        by (simp only: unat_add_lem)
      then show ?thesis unfolding o1 c1 using e by simp
    qed
    have b: "unat magic = 113 * 8388608 + 0" by (simp add: magic_def)
    {
      assume f: "f = 0"
      from a f have a0: "unat (o0 + c112 + c1) = 113 * 8388608 + 0 * 8192" by simp
      have "f32_sub (o0 + c112 + c1) magic = 0" using a0 b by (rule f32_sub_magic_zero)
      then show "unat (csafetensors_f16_to_f32 x) = s * 2147483648"
        unfolding r' by (simp add: sg)
    }
    {
      assume k: "2 ^ k \<le> f" "f < 2 ^ (k + 1)"
      have k9: "k \<le> 9"
      proof (rule ccontr)
        assume "\<not> k \<le> 9"
        then have "(2::nat) ^ 10 \<le> 2 ^ k" by (intro power_increasing) simp_all
        with k(1) f1024 show False by simp
      qed
      have p1: "(2::nat) ^ (k + 1) * 2 ^ (23 - k) = 16777216"
        using k9 by (simp flip: power_add)
      have hi: "f * 2 ^ (23 - k) < 16777216"
      proof -
        have "f * 2 ^ (23 - k) < 2 ^ (k + 1) * 2 ^ (23 - k)"
          using k(2) by (simp only: mult_less_cancel2) simp
        then show ?thesis by (simp only: p1)
      qed
      have v: "unat (f32_sub (o0 + c112 + c1) magic)
                 = (k + 103) * 8388608 + (f * 2 ^ (23 - k) - 8388608)"
        using a b k f1024 by (rule f32_sub_magic_pos)
      have "unat (f32_sub (o0 + c112 + c1) magic) < 2147483648"
        unfolding v using k9 hi by simp
      from u32_or_sign [OF this sg]
      show "unat (csafetensors_f16_to_f32 x)
             = s * 2147483648 + (k + 103) * 8388608 + (f * 2 ^ (23 - k) - 8388608)"
        unfolding r' v by simp
    }
  }
qed

text \<open>
  C7.  For every half bit pattern \<open>x\<close> whose exponent field is not all ones (a zero,
  a subnormal or a normal number of either sign), converting \<open>x\<close> to \<open>float\<close> with
  \<open>csafetensors_f16_to_f32\<close> and back with \<open>csafetensors_f32_to_f16\<close> returns \<open>x\<close>.
\<close>

theorem f16_f32_roundtrip:
  assumes "f16_is_finite x"
  shows "csafetensors_f32_to_f16 (csafetensors_f16_to_f32 x) = x"
proof -
  define s where "s = unat x div 32768"
  define e where "e = unat x div 1024 mod 32"
  define f where "f = unat x mod 1024"
  have x: "unat x = s * 32768 + e * 1024 + f"
    unfolding s_def e_def f_def by (rule nat_fields_16(2))
  have s: "s < 2" using unat_u16_less [of x] by (simp add: s_def)
  have f: "f < 1024" by (simp add: f_def)
  have e31: "e \<noteq> 31" using assms by (simp add: f16_is_finite_iff e_def)
  have e32: "e < 32" by (simp add: e_def)
  have "unat (csafetensors_f32_to_f16 (csafetensors_f16_to_f32 x)) = unat x"
  proof (cases "e = 0")
    case False
    have "unat (csafetensors_f16_to_f32 x) = s * 2147483648 + (e + 112) * 8388608 + f * 8192"
      unfolding s_def e_def f_def
      by (rule f16_to_f32_cases(1)) (use False e31 in \<open>simp_all add: e_def\<close>)
    then have "unat (csafetensors_f32_to_f16 (csafetensors_f16_to_f32 x))
                 = s * 32768 + e * 1024 + f"
      using s _ _ f by (rule f32_to_f16_normal) (use False e31 e32 in simp_all)
    with x show ?thesis by simp
  next
    case True
    show ?thesis
    proof (cases "f = 0")
      case f0: True
      have "unat (csafetensors_f16_to_f32 x) = s * 2147483648"
        unfolding s_def
        by (rule f16_to_f32_cases(2)) (use True f0 in \<open>simp_all add: e_def f_def\<close>)
      then have "unat (csafetensors_f32_to_f16 (csafetensors_f16_to_f32 x)) = s * 32768"
        using s by (rule f32_to_f16_zero)
      with x True f0 show ?thesis by simp
    next
      case False
      then have "0 < f" by simp
      then obtain k where k: "2 ^ k \<le> f" "f < 2 ^ (k + 1)" by (rule floorlog_exponent)
      have k9: "k \<le> 9"
      proof (rule ccontr)
        assume "\<not> k \<le> 9"
        then have "(2::nat) ^ 10 \<le> 2 ^ k" by (intro power_increasing) simp_all
        with k(1) f show False by simp
      qed
      have "unat (csafetensors_f16_to_f32 x)
              = s * 2147483648 + (k + 103) * 8388608 + (f * 2 ^ (23 - k) - 8388608)"
        unfolding s_def f_def
        by (rule f16_to_f32_cases(3)) (use True k in \<open>simp_all add: e_def f_def\<close>)
      then have "unat (csafetensors_f32_to_f16 (csafetensors_f16_to_f32 x)) = s * 32768 + f"
        using s k9 k by (rule f32_to_f16_subnormal)
      with x True show ?thesis by simp
    qed
  qed
  then show ?thesis by (simp only: word_unat_eq_iff)
qed

text \<open>
  The round trip at \<open>0x3c00\<close> (the half 1.0, whose float is \<open>0x3f800000\<close>), at the
  least subnormal \<open>0x0001\<close> and at the negative zero \<open>0x8000\<close>.
\<close>

theorem f16_f32_roundtrip_witness:
  "f16_is_finite 0x3c00
   \<and> csafetensors_f16_to_f32 0x3c00 = 0x3f800000
   \<and> csafetensors_f32_to_f16 (csafetensors_f16_to_f32 0x3c00) = 0x3c00
   \<and> f16_is_finite 0x0001
   \<and> csafetensors_f32_to_f16 (csafetensors_f16_to_f32 0x0001) = 0x0001
   \<and> f16_is_finite 0x8000
   \<and> csafetensors_f32_to_f16 (csafetensors_f16_to_f32 0x8000) = 0x8000"
proof -
  have a: "f16_is_finite 0x3c00" "f16_is_finite 0x0001" "f16_is_finite 0x8000"
    by (simp_all add: f16_is_finite_def)
  have b: "csafetensors_f16_to_f32 0x3c00 = 0x3f800000"
    by (simp add: csafetensors_f16_to_f32_def)
  from a b f16_f32_roundtrip [OF a(1)] f16_f32_roundtrip [OF a(2)] f16_f32_roundtrip [OF a(3)]
  show ?thesis by (simp only: simp_thms)
qed


section \<open>Properties of the bfloat16 codec\<close>

lemma upper_u16_push_bit: "upper_u16 (push_bit 16 (ucast (x :: u16) :: u32)) = x"
  unfolding upper_u16_def
  by (rule bit_word_eqI) (auto simp: bit_simps)

text \<open>
  C8.  For every 16-bit pattern \<open>x\<close>, the bit pattern of the float returned by
  \<open>csafetensors_bf16_to_f32\<close> is \<open>x\<close> shifted left by 16 bits inside a 32-bit word,
  so its low 16 bits are zero, and taking the upper 16 bits of that pattern gives \<open>x\<close>
  back: every bfloat16 pattern survives the trip through float32.
\<close>

theorem bf16_to_f32_bits_roundtrip:
  "csafetensors_bf16_to_f32 x = push_bit 16 (ucast x)
   \<and> take_bit 16 (csafetensors_bf16_to_f32 x) = 0
   \<and> upper_u16 (csafetensors_bf16_to_f32 x) = x"
proof -
  have b: "take_bit 16 (push_bit 16 (ucast x :: u32)) = 0"
    by (rule bit_word_eqI) (auto simp: bit_simps)
  show ?thesis
    unfolding csafetensors_bf16_to_f32_def
    using b upper_u16_push_bit [of x] by simp
qed


end
